theory Spec2Isabelle
  imports Main "HOL-Library.Word"
begin

unbundle bit_operations_syntax

section \<open>Constants and geometry (\<^verbatim>\<open>types.h\<close>)\<close>

text \<open>
  C \<^verbatim>\<open>int\<close> values are modelled by \<^typ>\<open>int\<close>; every value the engine computes on the
  board stays far inside the 32-bit range.  C division and remainder truncate towards zero.
\<close>

definition c_div :: "int \<Rightarrow> int \<Rightarrow> int" where
  "c_div a b = sgn a * sgn b * (\<bar>a\<bar> div \<bar>b\<bar>)"

definition c_rem :: "int \<Rightarrow> int \<Rightarrow> int" where
  "c_rem a b = a - b * c_div a b"

definition BOARD_W :: int where "BOARD_W = 7"
definition BOARD_H :: int where "BOARD_H = 9"
definition NUM_SQ :: int where "NUM_SQ = 63"

definition sqRow :: "int \<Rightarrow> int" where "sqRow sq = c_div sq BOARD_W"
definition sqCol :: "int \<Rightarrow> int" where "sqCol sq = c_rem sq BOARD_W"
definition makeSq :: "int \<Rightarrow> int \<Rightarrow> int" where "makeSq r c = r * BOARD_W + c"

definition NONE_PC :: int where "NONE_PC = 0"
definition RAT :: int where "RAT = 1"
definition CAT :: int where "CAT = 2"
definition DOG :: int where "DOG = 3"
definition WOLF :: int where "WOLF = 4"
definition LEOPARD :: int where "LEOPARD = 5"
definition TIGER :: int where "TIGER = 6"
definition LION :: int where "LION = 7"
definition ELEPHANT :: int where "ELEPHANT = 8"
definition NUM_PIECE_TYPES :: int where "NUM_PIECE_TYPES = 9"

definition LIGHT :: int where "LIGHT = 0"
definition DARK :: int where "DARK = 1"

definition TERRAIN_LAND :: int where "TERRAIN_LAND = 0"
definition TERRAIN_WATER :: int where "TERRAIN_WATER = 1"
definition TERRAIN_TRAP_LIGHT :: int where "TERRAIN_TRAP_LIGHT = 2"
definition TERRAIN_TRAP_DARK :: int where "TERRAIN_TRAP_DARK = 3"
definition TERRAIN_DEN_LIGHT :: int where "TERRAIN_DEN_LIGHT = 4"
definition TERRAIN_DEN_DARK :: int where "TERRAIN_DEN_DARK = 5"

definition DEN_LIGHT_SQ :: int where "DEN_LIGHT_SQ = makeSq 0 3"
definition DEN_DARK_SQ :: int where "DEN_DARK_SQ = makeSq 8 3"

definition DIR_N :: int where "DIR_N = 7"
definition DIR_S :: int where "DIR_S = - 7"
definition DIR_E :: int where "DIR_E = 1"
definition DIR_W :: int where "DIR_W = - 1"
definition DIRS :: "int list" where "DIRS = [DIR_N, DIR_S, DIR_E, DIR_W]"

text \<open>A move is a \<^verbatim>\<open>uint16_t\<close>: origin in bits 0-5, destination in bits 6-11.\<close>

type_synonym Move = "16 word"

definition MOVE_NONE :: Move where "MOVE_NONE = 0xFFFF"

definition moveFrom :: "Move \<Rightarrow> int" where
  "moveFrom m = uint m AND 0x3F"

definition moveTo :: "Move \<Rightarrow> int" where
  "moveTo m = drop_bit 6 (uint m) AND 0x3F"

definition encodeMove :: "int \<Rightarrow> int \<Rightarrow> Move" where
  "encodeMove from to = word_of_int (from OR push_bit 6 to)"

definition SCORE_MATE :: int where "SCORE_MATE = 29000"
definition MAX_PLY :: int where "MAX_PLY = 128"
definition MAX_GAME_LEN :: int where "MAX_GAME_LEN = 2048"

definition canStep :: "int \<Rightarrow> int \<Rightarrow> bool" where
  "canStep from dir =
     (let to = from + dir in
      if to < 0 \<or> to \<ge> NUM_SQ then False
      else if dir = DIR_E \<and> sqCol from = BOARD_W - 1 then False
      else if dir = DIR_W \<and> sqCol from = 0 then False
      else True)"

text \<open>\<^verbatim>\<open>charToRank\<close>: the letter is upper-cased and looked up in \<^verbatim>\<open>"RCDWPTLE"\<close>.
  Characters are handled through their codes (C locale, ASCII).\<close>

definition toupper :: "int \<Rightarrow> int" where
  "toupper c = (if 97 \<le> c \<and> c \<le> 122 then c - 32 else c)"

definition isupper :: "int \<Rightarrow> bool" where
  "isupper c = (65 \<le> c \<and> c \<le> 90)"

fun charToRank_loop :: "int \<Rightarrow> int list \<Rightarrow> int \<Rightarrow> int" where
  "charToRank_loop ch [] i = 0"
| "charToRank_loop ch (t # tbl) i = (if t = ch then i + 1 else charToRank_loop ch tbl (i + 1))"

definition charToRank :: "char \<Rightarrow> int" where
  "charToRank ch = charToRank_loop (toupper (of_char ch)) (map of_char ''RCDWPTLE'') 0"

section \<open>Global tables (\<^verbatim>\<open>initTables\<close> in \<^verbatim>\<open>board.cpp\<close>)\<close>

definition waterSqs :: "int list" where
  "waterSqs = [22, 23, 29, 30, 36, 37, 25, 26, 32, 33, 39, 40]"

definition lightTraps :: "int list" where
  "lightTraps = [makeSq 0 2, makeSq 0 4, makeSq 1 3]"

definition darkTraps :: "int list" where
  "darkTraps = [makeSq 8 2, makeSq 8 4, makeSq 7 3]"

definition terrain :: "int list" where
  "terrain =
     (let t = replicate (nat NUM_SQ) TERRAIN_LAND;
          t = fold (\<lambda>sq t. t[nat sq := TERRAIN_WATER]) waterSqs t;
          t = t[nat DEN_LIGHT_SQ := TERRAIN_DEN_LIGHT];
          t = t[nat DEN_DARK_SQ := TERRAIN_DEN_DARK];
          t = fold (\<lambda>sq t. t[nat sq := TERRAIN_TRAP_LIGHT]) lightTraps t;
          t = fold (\<lambda>sq t. t[nat sq := TERRAIN_TRAP_DARK]) darkTraps t
      in t)"

definition isWater :: "bool list" where
  "isWater = fold (\<lambda>sq w. w[nat sq := True]) waterSqs (replicate (nat NUM_SQ) False)"

text \<open>The jump table.  \<^verbatim>\<open>jumpTable[numJumps++]\<close> appends an entry; \<open>numJumps\<close> is the
  length of the list (20 entries, below \<^verbatim>\<open>MAX_JUMPS = 40\<close>).\<close>

record JumpEntry =
  jfrom :: int
  jto :: int
  blocking :: "int list"
  numBlocking :: int

definition addJump :: "int \<Rightarrow> int \<Rightarrow> int list \<Rightarrow> JumpEntry list \<Rightarrow> JumpEntry list" where
  "addJump from to blocks jt =
     (let e = \<lparr>jfrom = from, jto = to, blocking = replicate 3 0, numBlocking = 0\<rparr>;
          e = fold (\<lambda>b e. e\<lparr>blocking := (blocking e)[nat (numBlocking e) := b],
                              numBlocking := numBlocking e + 1\<rparr>) blocks e
      in jt @ [e])"

definition jumpTable :: "JumpEntry list" where
  "jumpTable =
     (let jt = [];
          jt = fold (\<lambda>r jt.
                 let a = makeSq r 0; b1 = makeSq r 1; b2 = makeSq r 2; d = makeSq r 3;
                     jt = addJump a d [b1, b2] jt;
                     jt = addJump d a [b2, b1] jt
                 in jt) [3..5] jt;
          jt = fold (\<lambda>r jt.
                 let d = makeSq r 3; e1 = makeSq r 4; e2 = makeSq r 5; g = makeSq r 6;
                     jt = addJump d g [e1, e2] jt;
                     jt = addJump g d [e2, e1] jt
                 in jt) [3..5] jt;
          jt = fold (\<lambda>c jt.
                 let bot = makeSq 2 c; top = makeSq 6 c;
                     w1 = makeSq 3 c; w2 = makeSq 4 c; w3 = makeSq 5 c;
                     jt = addJump bot top [w1, w2, w3] jt;
                     jt = addJump top bot [w3, w2, w1] jt
                 in jt) [1..2] jt;
          jt = fold (\<lambda>c jt.
                 let bot = makeSq 2 c; top = makeSq 6 c;
                     w1 = makeSq 3 c; w2 = makeSq 4 c; w3 = makeSq 5 c;
                     jt = addJump bot top [w1, w2, w3] jt;
                     jt = addJump top bot [w3, w2, w1] jt
                 in jt) [4..5] jt
      in jt)"

record SqJumps =
  dest :: "int list"
  blockStart :: "int list"
  blockCount :: "int list"
  blockingSqs :: "int list"
  count :: int

definition MAX_JUMPS_PER_SQ :: int where "MAX_JUMPS_PER_SQ = 4"

definition zeroSqJumps :: SqJumps where
  "zeroSqJumps =
     \<lparr>dest = replicate (nat MAX_JUMPS_PER_SQ) 0,
      blockStart = replicate (nat MAX_JUMPS_PER_SQ) 0,
      blockCount = replicate (nat MAX_JUMPS_PER_SQ) 0,
      blockingSqs = replicate (nat (MAX_JUMPS_PER_SQ * 3)) 0,
      count = 0\<rparr>"

definition addLookup :: "JumpEntry \<Rightarrow> SqJumps list \<Rightarrow> SqJumps list" where
  "addLookup e tbl =
     (let sj = tbl ! nat (jfrom e);
          idx = count sj;
          sj = sj\<lparr>dest := (dest sj)[nat idx := jto e]\<rparr>;
          sj = sj\<lparr>blockStart := (blockStart sj)[nat idx :=
                  (if idx > 0 then blockStart sj ! nat (idx - 1) + blockCount sj ! nat (idx - 1)
                   else 0)]\<rparr>;
          sj = sj\<lparr>blockCount := (blockCount sj)[nat idx := numBlocking e]\<rparr>;
          sj = fold (\<lambda>j sj. sj\<lparr>blockingSqs :=
                  (blockingSqs sj)[nat (blockStart sj ! nat idx + j) := blocking e ! nat j]\<rparr>)
                 [0..numBlocking e - 1] sj;
          sj = sj\<lparr>count := count sj + 1\<rparr>
      in tbl[nat (jfrom e) := sj])"

definition sqJumpLookup :: "SqJumps list" where
  "sqJumpLookup = fold addLookup jumpTable (replicate (nat NUM_SQ) zeroSqJumps)"

text \<open>The jumps of a square as the lookup table holds them: landing square and the water
  squares in between, in table order.\<close>

definition jumpsOf :: "int \<Rightarrow> (int \<times> int list) list" where
  "jumpsOf sq =
     (let sj = sqJumpLookup ! nat sq
      in map (\<lambda>i. (dest sj ! nat i,
                     map (\<lambda>j. blockingSqs sj ! nat (blockStart sj ! nat i + j))
                       [0..blockCount sj ! nat i - 1]))
           [0..count sj - 1])"

text \<open>The Zobrist keys are drawn from \<^verbatim>\<open>std::mt19937_64\<close>; the model takes the key table
  as a parameter, so every result holds for the keys the program draws.\<close>

record zobrist =
  zobristPiece :: "int \<Rightarrow> int \<Rightarrow> int \<Rightarrow> 64 word"
  zobristSide :: "64 word"

section \<open>The position (\<^verbatim>\<open>board.h\<close>)\<close>

record UndoInfo =
  captured :: int
  u_hash :: "64 word"
  u_halfmove :: int
  u_move :: Move

text \<open>
  \<open>squares\<close> has 63 cells (0 empty, \<open>+r\<close> Light, \<open>-r\<close> Dark), \<open>pieceSq\<close> is 2 x 9 and
  \<open>pieceCount\<close> has 2 cells.  \<open>undoStack\<close> and \<open>posHistory\<close> are the arrays of
  \<open>MAX_GAME_LEN\<close> entries; the operations check every index against that capacity.
\<close>

record Board =
  squares :: "int list"
  sideToMove :: int
  hash :: "64 word"
  ply :: int
  halfmove :: int
  pieceSq :: "int list list"
  pieceCount :: "int list"
  undoStack :: "nat \<Rightarrow> UndoInfo"
  posHistory :: "nat \<Rightarrow> 64 word"
  histLen :: int

datatype error = OutOfBounds

definition arr2 :: "'a list list \<Rightarrow> int \<Rightarrow> int \<Rightarrow> 'a" where
  "arr2 a i j = a ! nat i ! nat j"

definition arr2_upd :: "'a list list \<Rightarrow> int \<Rightarrow> int \<Rightarrow> 'a \<Rightarrow> 'a list list" where
  "arr2_upd a i j v = a[nat i := (a ! nat i)[nat j := v]]"

definition pieceColor :: "int \<Rightarrow> int" where
  "pieceColor pc = (if pc > 0 then LIGHT else DARK)"

subsection \<open>Zobrist hash\<close>

definition computeHash_step :: "zobrist \<Rightarrow> int list \<Rightarrow> nat \<Rightarrow> 64 word \<Rightarrow> 64 word" where
  "computeHash_step Z sqs sq h =
     (if sqs ! sq \<noteq> 0 then
        (let rk = \<bar>sqs ! sq\<bar>; col = pieceColor (sqs ! sq)
         in h XOR zobristPiece Z (int sq) rk col)
      else h)"

definition computeHash :: "zobrist \<Rightarrow> Board \<Rightarrow> Board" where
  "computeHash Z b =
     (let h = fold (computeHash_step Z (squares b)) [0..<nat NUM_SQ] 0;
          h = (if sideToMove b = DARK then h XOR zobristSide Z else h)
      in b\<lparr>hash := h\<rparr>)"


subsection \<open>\<^verbatim>\<open>Board::init\<close>: the starting position\<close>

definition place :: "int \<Rightarrow> int \<Rightarrow> int \<Rightarrow> Board \<Rightarrow> Board" where
  "place color rank sq b =
     b\<lparr>squares := (squares b)[nat sq := (if color = LIGHT then rank else - rank)],
       pieceSq := arr2_upd (pieceSq b) color rank sq\<rparr>"

definition pushHistory :: "Board \<Rightarrow> Board" where
  "pushHistory b =
     b\<lparr>posHistory := (posHistory b)(nat (histLen b) := hash b), histLen := histLen b + 1\<rparr>"

definition init :: "zobrist \<Rightarrow> Board \<Rightarrow> Board" where
  "init Z b =
     (let b = b\<lparr>squares := replicate (nat NUM_SQ) 0,
                 pieceSq := replicate 2 (replicate (nat NUM_PIECE_TYPES) (- 1))\<rparr>;
          b = b\<lparr>pieceCount := (pieceCount b)[nat LIGHT := 8]\<rparr>;
          b = b\<lparr>pieceCount := (pieceCount b)[nat DARK := 8]\<rparr>;
          b = b\<lparr>sideToMove := LIGHT, ply := 0, halfmove := 0, histLen := 0\<rparr>;
          b = place LIGHT ELEPHANT (makeSq 2 0) b;
          b = place LIGHT LION (makeSq 0 6) b;
          b = place LIGHT TIGER (makeSq 0 0) b;
          b = place LIGHT LEOPARD (makeSq 2 4) b;
          b = place LIGHT WOLF (makeSq 2 2) b;
          b = place LIGHT DOG (makeSq 1 5) b;
          b = place LIGHT CAT (makeSq 1 1) b;
          b = place LIGHT RAT (makeSq 2 6) b;
          b = place DARK ELEPHANT (makeSq 6 6) b;
          b = place DARK LION (makeSq 8 0) b;
          b = place DARK TIGER (makeSq 8 6) b;
          b = place DARK LEOPARD (makeSq 6 2) b;
          b = place DARK WOLF (makeSq 6 4) b;
          b = place DARK DOG (makeSq 7 1) b;
          b = place DARK CAT (makeSq 7 5) b;
          b = place DARK RAT (makeSq 6 0) b;
          b = computeHash Z b
      in pushHistory b)"

subsection \<open>\<^verbatim>\<open>Board::setFEN\<close>\<close>

text \<open>
  The parsing loop runs over the remaining text.  It ends with \<open>Inr (True, b, rest)\<close> when
  the text is used up, nine rows are done or a space was read (\<open>rest\<close> is the text from
  \<open>idx\<close> on), with \<open>Inr (False, b, rest)\<close> at the \<^verbatim>\<open>return false\<close> of an unknown letter,
  and with \<open>Inl OutOfBounds\<close> where the C code would write past \<open>squares[62]\<close>.
\<close>

fun setFEN_loop :: "Board \<Rightarrow> int \<Rightarrow> int \<Rightarrow> string \<Rightarrow> error + (bool \<times> Board \<times> string)" where
  "setFEN_loop b row col [] = Inr (True, b, [])"
| "setFEN_loop b row col (ch # rest) =
     (if \<not> row \<ge> 0 then Inr (True, b, ch # rest)
      else if ch = CHR ''/'' then setFEN_loop b (row - 1) 0 rest
      else if ch = CHR '' '' then Inr (True, b, rest)
      else if (of_char ch :: int) \<ge> of_char CHR ''1'' \<and> (of_char ch :: int) \<le> of_char CHR ''7''
        then setFEN_loop b row (col + (of_char ch - of_char CHR ''0'')) rest
      else
        (let rk = charToRank ch in
         if rk = 0 then Inr (False, b, rest)
         else
           (let color = (if isupper (of_char ch) then LIGHT else DARK);
                sq = makeSq row col
            in if sq < 0 \<or> sq \<ge> NUM_SQ then Inl OutOfBounds
               else
                 (let b = b\<lparr>squares := (squares b)[nat sq := (if color = LIGHT then rk else - rk)]\<rparr>;
                      b = b\<lparr>pieceSq := arr2_upd (pieceSq b) color rk sq\<rparr>;
                      b = b\<lparr>pieceCount := (pieceCount b)[nat color := pieceCount b ! nat color + 1]\<rparr>
                  in setFEN_loop b row (col + 1) rest))))"

definition setFEN :: "zobrist \<Rightarrow> Board \<Rightarrow> string \<Rightarrow> error + (bool \<times> Board)" where
  "setFEN Z b fen =
     (let b = b\<lparr>squares := replicate (nat NUM_SQ) 0,
                 pieceSq := replicate 2 (replicate (nat NUM_PIECE_TYPES) (- 1))\<rparr>;
          b = b\<lparr>pieceCount := (pieceCount b)[nat LIGHT := 0]\<rparr>;
          b = b\<lparr>pieceCount := (pieceCount b)[nat DARK := 0]\<rparr>;
          b = b\<lparr>ply := 0, halfmove := 0, histLen := 0\<rparr>
      in case setFEN_loop b 8 0 fen of
           Inl e \<Rightarrow> Inl e
         | Inr (ok, b, rest) \<Rightarrow>
             if \<not> ok then Inr (False, b)
             else
               (let rest = dropWhile (\<lambda>c. c = CHR '' '') rest;
                    b = (if rest \<noteq> []
                         then b\<lparr>sideToMove := (if hd rest = CHR ''b'' then DARK else LIGHT)\<rparr>
                         else b\<lparr>sideToMove := LIGHT\<rparr>);
                    b = computeHash Z b
                in Inr (True, pushHistory b)))"

subsection \<open>Capture legality and move generation\<close>

definition canCapture :: "int \<Rightarrow> int \<Rightarrow> int \<Rightarrow> int \<Rightarrow> int \<Rightarrow> bool" where
  "canCapture attackerRank defenderRank attackerColor fromSq toSq =
     (let fromW = isWater ! nat fromSq;
          toW = isWater ! nat toSq
      in if fromW \<noteq> toW then False
         else if fromW \<and> toW then True
         else if attackerColor = LIGHT \<and> terrain ! nat toSq = TERRAIN_TRAP_LIGHT then True
         else if attackerColor = DARK \<and> terrain ! nat toSq = TERRAIN_TRAP_DARK then True
         else if attackerRank = RAT \<and> defenderRank = ELEPHANT then True
         else if attackerRank = ELEPHANT \<and> defenderRank = RAT then False
         else attackerRank \<ge> defenderRank)"

text \<open>The move buffer \<^verbatim>\<open>moves[count++]\<close> is a list that grows at its end.\<close>

definition addNormalMoves_step :: "Board \<Rightarrow> int \<Rightarrow> int \<Rightarrow> int \<Rightarrow> int \<Rightarrow> Move list \<Rightarrow> Move list" where
  "addNormalMoves_step b sq rank color d moves =
     (if \<not> canStep sq d then moves
      else
        (let to = sq + d;
             ter = terrain ! nat to
         in if color = LIGHT \<and> ter = TERRAIN_DEN_LIGHT then moves
            else if color = DARK \<and> ter = TERRAIN_DEN_DARK then moves
            else if ter = TERRAIN_WATER \<and> rank \<noteq> RAT then moves
            else
              (let target = squares b ! nat to
               in if target = 0 then moves @ [encodeMove sq to]
                  else
                    (let tColor = pieceColor target
                     in if tColor = color then moves
                        else
                          (let tRank = \<bar>target\<bar>
                           in if canCapture rank tRank color sq to
                              then moves @ [encodeMove sq to]
                              else moves)))))"

definition addNormalMoves :: "Board \<Rightarrow> int \<Rightarrow> int \<Rightarrow> int \<Rightarrow> Move list \<Rightarrow> Move list" where
  "addNormalMoves b sq rank color moves = fold (addNormalMoves_step b sq rank color) DIRS moves"

definition jumpBlocked :: "Board \<Rightarrow> SqJumps \<Rightarrow> int \<Rightarrow> bool" where
  "jumpBlocked b sj i =
     (let bStart = blockStart sj ! nat i
      in list_ex (\<lambda>j. squares b ! nat (blockingSqs sj ! nat (bStart + j)) \<noteq> 0)
           [0..blockCount sj ! nat i - 1])"

definition addJumpMoves_step :: "Board \<Rightarrow> int \<Rightarrow> int \<Rightarrow> int \<Rightarrow> SqJumps \<Rightarrow> int \<Rightarrow> Move list \<Rightarrow> Move list" where
  "addJumpMoves_step b sq rank color sj i moves =
     (let to = dest sj ! nat i
      in if color = LIGHT \<and> terrain ! nat to = TERRAIN_DEN_LIGHT then moves
         else if color = DARK \<and> terrain ! nat to = TERRAIN_DEN_DARK then moves
         else if jumpBlocked b sj i then moves
         else
           (let target = squares b ! nat to
            in if target = 0 then moves @ [encodeMove sq to]
               else
                 (let tColor = pieceColor target
                  in if tColor = color then moves
                     else
                       (let tRank = \<bar>target\<bar>
                        in if canCapture rank tRank color sq to
                           then moves @ [encodeMove sq to]
                           else moves))))"

definition addJumpMoves :: "Board \<Rightarrow> int \<Rightarrow> int \<Rightarrow> int \<Rightarrow> Move list \<Rightarrow> Move list" where
  "addJumpMoves b sq rank color moves =
     (let sj = sqJumpLookup ! nat sq
      in fold (addJumpMoves_step b sq rank color sj) [0..count sj - 1] moves)"

definition generateMoves_step :: "Board \<Rightarrow> int \<Rightarrow> int \<Rightarrow> Move list \<Rightarrow> Move list" where
  "generateMoves_step b color rk moves =
     (let sq = arr2 (pieceSq b) color rk
      in if sq < 0 then moves
         else
           (let moves = addNormalMoves b sq rk color moves
            in if rk = LION \<or> rk = TIGER then addJumpMoves b sq rk color moves else moves))"

definition generateMoves :: "Board \<Rightarrow> Move list" where
  "generateMoves b = fold (generateMoves_step b (sideToMove b)) [1..8] []"

subsection \<open>Make and unmake\<close>

text \<open>
  An index outside its array is undefined behaviour in C; the model returns
  \<open>Inl OutOfBounds\<close> there: a full undo stack or history, a move naming square 63, a
  cell holding a value that is no rank.
\<close>

definition makeMove :: "zobrist \<Rightarrow> Board \<Rightarrow> Move \<Rightarrow> error + Board" where
  "makeMove Z b m =
     (let from = moveFrom m;
          to = moveTo m
      in if from \<ge> NUM_SQ \<or> to \<ge> NUM_SQ then Inl OutOfBounds
         else
           (let piece = squares b ! nat from;
                rk = \<bar>piece\<bar>;
                color = pieceColor piece
            in if ply b < 0 \<or> ply b \<ge> MAX_GAME_LEN then Inl OutOfBounds
               else
                 (let u = \<lparr>captured = squares b ! nat to, u_hash = hash b,
                           u_halfmove = halfmove b, u_move = m\<rparr>;
                      b = b\<lparr>undoStack := (undoStack b)(nat (ply b) := u)\<rparr>
                  in if rk \<ge> NUM_PIECE_TYPES \<or> \<bar>captured u\<bar> \<ge> NUM_PIECE_TYPES
                        \<or> histLen b < 0 \<or> histLen b \<ge> MAX_GAME_LEN
                     then Inl OutOfBounds
                     else
                       (let b = (if captured u \<noteq> 0 then
                                   (let cRk = \<bar>captured u\<bar>;
                                        cCol = pieceColor (captured u);
                                        b = b\<lparr>pieceSq := arr2_upd (pieceSq b) cCol cRk (- 1)\<rparr>;
                                        b = b\<lparr>pieceCount :=
                                               (pieceCount b)[nat cCol := pieceCount b ! nat cCol - 1]\<rparr>;
                                        b = b\<lparr>hash := hash b XOR zobristPiece Z to cRk cCol\<rparr>
                                    in b\<lparr>halfmove := 0\<rparr>)
                                 else b\<lparr>halfmove := halfmove b + 1\<rparr>);
                            b = b\<lparr>hash := hash b XOR zobristPiece Z from rk color\<rparr>;
                            b = b\<lparr>hash := hash b XOR zobristPiece Z to rk color\<rparr>;
                            b = b\<lparr>squares := (squares b)[nat to := piece]\<rparr>;
                            b = b\<lparr>squares := (squares b)[nat from := 0]\<rparr>;
                            b = b\<lparr>pieceSq := arr2_upd (pieceSq b) color rk to\<rparr>;
                            b = b\<lparr>sideToMove := 1 - sideToMove b\<rparr>;
                            b = b\<lparr>hash := hash b XOR zobristSide Z\<rparr>;
                            b = b\<lparr>ply := ply b + 1\<rparr>
                        in Inr (pushHistory b)))))"

definition unmakeMove :: "Board \<Rightarrow> error + Board" where
  "unmakeMove b =
     (let b = b\<lparr>ply := ply b - 1\<rparr>;
          b = b\<lparr>histLen := histLen b - 1\<rparr>
      in if ply b < 0 \<or> ply b \<ge> MAX_GAME_LEN then Inl OutOfBounds
         else
           (let u = undoStack b (nat (ply b));
                from = moveFrom (u_move u);
                to = moveTo (u_move u)
            in if from \<ge> NUM_SQ \<or> to \<ge> NUM_SQ then Inl OutOfBounds
               else
                 (let b = b\<lparr>sideToMove := 1 - sideToMove b\<rparr>;
                      b = b\<lparr>hash := u_hash u\<rparr>;
                      b = b\<lparr>halfmove := u_halfmove u\<rparr>;
                      piece = squares b ! nat to;
                      rk = \<bar>piece\<bar>;
                      color = pieceColor piece
                  in if rk \<ge> NUM_PIECE_TYPES \<or> \<bar>captured u\<bar> \<ge> NUM_PIECE_TYPES
                     then Inl OutOfBounds
                     else
                       (let b = b\<lparr>squares := (squares b)[nat from := piece]\<rparr>;
                            b = b\<lparr>squares := (squares b)[nat to := captured u]\<rparr>;
                            b = b\<lparr>pieceSq := arr2_upd (pieceSq b) color rk from\<rparr>;
                            b = (if captured u \<noteq> 0 then
                                   (let cRk = \<bar>captured u\<bar>;
                                        cCol = pieceColor (captured u);
                                        b = b\<lparr>pieceSq := arr2_upd (pieceSq b) cCol cRk to\<rparr>
                                    in b\<lparr>pieceCount :=
                                           (pieceCount b)[nat cCol := pieceCount b ! nat cCol + 1]\<rparr>)
                                 else b)
                        in Inr b))))"

definition makeNullMove :: "zobrist \<Rightarrow> Board \<Rightarrow> error + Board" where
  "makeNullMove Z b =
     (if ply b < 0 \<or> ply b \<ge> MAX_GAME_LEN \<or> histLen b < 0 \<or> histLen b \<ge> MAX_GAME_LEN
      then Inl OutOfBounds
      else
        (let u = \<lparr>captured = 0, u_hash = hash b, u_halfmove = halfmove b, u_move = MOVE_NONE\<rparr>;
             b = b\<lparr>undoStack := (undoStack b)(nat (ply b) := u)\<rparr>;
             b = b\<lparr>sideToMove := 1 - sideToMove b\<rparr>;
             b = b\<lparr>hash := hash b XOR zobristSide Z\<rparr>;
             b = b\<lparr>ply := ply b + 1\<rparr>
         in Inr (pushHistory b)))"

definition unmakeNullMove :: "Board \<Rightarrow> error + Board" where
  "unmakeNullMove b =
     (let b = b\<lparr>ply := ply b - 1\<rparr>;
          b = b\<lparr>histLen := histLen b - 1\<rparr>
      in if ply b < 0 \<or> ply b \<ge> MAX_GAME_LEN then Inl OutOfBounds
         else
           (let u = undoStack b (nat (ply b));
                b = b\<lparr>sideToMove := 1 - sideToMove b\<rparr>;
                b = b\<lparr>hash := u_hash u\<rparr>
            in Inr (b\<lparr>halfmove := u_halfmove u\<rparr>)))"

subsection \<open>Repetition and game over\<close>

function isRepetition_loop :: "(nat \<Rightarrow> 64 word) \<Rightarrow> 64 word \<Rightarrow> int \<Rightarrow> int \<Rightarrow> bool" where
  "isRepetition_loop ph h i cnt =
     (if i \<ge> 0 then
        (if ph (nat i) = h then
           (if cnt + 1 \<ge> 2 then True else isRepetition_loop ph h (i - 2) (cnt + 1))
         else isRepetition_loop ph h (i - 2) cnt)
      else False)"
  by pat_completeness auto
termination
  by (relation "measure (\<lambda>(ph, h, i, cnt). nat (i + 1))") auto

declare isRepetition_loop.simps [simp del]

definition isRepetition :: "Board \<Rightarrow> bool" where
  "isRepetition b =
     (if histLen b < 5 then False
      else isRepetition_loop (posHistory b) (hash b) (histLen b - 3) 0)"

definition checkGameOver :: "Board \<Rightarrow> int" where
  "checkGameOver b =
     (let opp = 1 - sideToMove b;
          ourDen = (if sideToMove b = LIGHT then DEN_LIGHT_SQ else DEN_DARK_SQ)
      in if squares b ! nat ourDen \<noteq> 0 \<and> pieceColor (squares b ! nat ourDen) = opp then - 1
         else if pieceCount b ! nat (sideToMove b) = 0 then - 1
         else if pieceCount b ! nat opp = 0 then 1
         else 0)"

section \<open>Transposition-table score adjustment (\<^verbatim>\<open>search.cpp\<close>)\<close>

definition scoreToTT :: "int \<Rightarrow> int \<Rightarrow> int" where
  "scoreToTT score ply' =
     (if score \<ge> SCORE_MATE - MAX_PLY then score + ply'
      else if score \<le> - SCORE_MATE + MAX_PLY then score - ply'
      else score)"

definition scoreFromTT :: "int \<Rightarrow> int \<Rightarrow> int" where
  "scoreFromTT score ply' =
     (if score \<ge> SCORE_MATE - MAX_PLY then score - ply'
      else if score \<le> - SCORE_MATE + MAX_PLY then score + ply'
      else score)"

text \<open>The all-zero object (the engine's board has static storage).\<close>

definition zeroBoard :: Board where
  "zeroBoard =
     \<lparr>squares = replicate (nat NUM_SQ) 0, sideToMove = 0, hash = 0, ply = 0, halfmove = 0,
      pieceSq = replicate 2 (replicate (nat NUM_PIECE_TYPES) 0), pieceCount = replicate 2 0,
      undoStack = (\<lambda>_. \<lparr>captured = 0, u_hash = 0, u_halfmove = 0, u_move = 0\<rparr>),
      posHistory = (\<lambda>_. 0), histLen = 0\<rparr>"

section \<open>Notions of the specification\<close>

text \<open>
  The specification describes the board by coordinates: \<open>(row, col) = (index / 7, index % 7)\<close>,
  water on columns b-c and e-f of rows 4-6, the dens at d1 and d9, and a trap on each
  square orthogonally adjacent to a den.  These definitions follow its words; the tables
  of \<^verbatim>\<open>initTables\<close> are compared with them below.
\<close>

definition spec_row :: "int \<Rightarrow> int" where "spec_row sq = sq div 7"
definition spec_col :: "int \<Rightarrow> int" where "spec_col sq = sq mod 7"

definition spec_is_water :: "int \<Rightarrow> bool" where
  "spec_is_water sq =
     ((spec_col sq = 1 \<or> spec_col sq = 2 \<or> spec_col sq = 4 \<or> spec_col sq = 5)
      \<and> 3 \<le> spec_row sq \<and> spec_row sq \<le> 5)"

definition spec_den :: "int \<Rightarrow> int" where
  "spec_den color = (if color = LIGHT then 0 * 7 + 3 else 8 * 7 + 3)"

definition spec_adjacent :: "int \<Rightarrow> int \<Rightarrow> bool" where
  "spec_adjacent s t = (\<bar>spec_row s - spec_row t\<bar> + \<bar>spec_col s - spec_col t\<bar> = 1)"

definition spec_is_trap :: "int \<Rightarrow> int \<Rightarrow> bool" where
  "spec_is_trap owner sq = spec_adjacent sq (spec_den owner)"

text \<open>
  The capture rule of the specification (section 4.C, rule 3), for an attacker and a
  defender of different colours.  Between two water squares both pieces must be Rats.
\<close>

definition spec_capture :: "int \<Rightarrow> int \<Rightarrow> int \<Rightarrow> int \<Rightarrow> int \<Rightarrow> bool" where
  "spec_capture attacker defender color fromSq toSq =
     (if spec_is_water fromSq \<noteq> spec_is_water toSq then False
      else if spec_is_water fromSq \<and> spec_is_water toSq then attacker = RAT \<and> defender = RAT
      else if spec_is_trap color toSq then True
      else if attacker = RAT \<and> defender = ELEPHANT then True
      else if attacker = ELEPHANT \<and> defender = RAT then False
      else attacker \<ge> defender)"








section \<open>Auxiliary definitions\<close>

text \<open>One jump of the lookup table applied to the move list: the body of the loop of
  \<^verbatim>\<open>addJumpMoves\<close> on a pair of \<open>jumpsOf\<close>.\<close>

definition jump_add :: "Board \<Rightarrow> int \<Rightarrow> int \<Rightarrow> int \<Rightarrow> int \<times> int list \<Rightarrow> Move list \<Rightarrow> Move list" where
  "jump_add b sq rank color j moves =
     (let to = fst j
      in if color = LIGHT \<and> terrain ! nat to = TERRAIN_DEN_LIGHT then moves
         else if color = DARK \<and> terrain ! nat to = TERRAIN_DEN_DARK then moves
         else if list_ex (\<lambda>w. squares b ! nat w \<noteq> 0) (snd j) then moves
         else if squares b ! nat to = 0 then moves @ [encodeMove sq to]
         else if pieceColor (squares b ! nat to) = color then moves
         else if canCapture rank \<bar>squares b ! nat to\<bar> color sq to then moves @ [encodeMove sq to]
         else moves)"

text \<open>A key table for the concrete examples.\<close>

definition testKeys :: zobrist where
  "testKeys =
     \<lparr>zobristPiece = (\<lambda>sq rk c. word_of_int (sq * 1000 + rk * 10 + c + 1)),
      zobristSide = 0xABCDEF\<rparr>"

text \<open>Invariant 5 of the data model: a piece standing on a water square is a Rat.\<close>

definition waterInv :: "Board \<Rightarrow> bool" where
  "waterInv b =
     list_all (\<lambda>sq. isWater ! nat sq \<and> squares b ! nat sq \<noteq> 0 \<longrightarrow> \<bar>squares b ! nat sq\<bar> = RAT)
       [0..62]"

text \<open>The state \<open>setFEN\<close> starts parsing from.\<close>

definition clearBoard :: "Board \<Rightarrow> Board" where
  "clearBoard b =
     b\<lparr>squares := replicate (nat NUM_SQ) 0,
       pieceSq := replicate 2 (replicate (nat NUM_PIECE_TYPES) (- 1)),
       pieceCount := (pieceCount b)[nat LIGHT := 0, nat DARK := 0],
       ply := 0, halfmove := 0, histLen := 0\<rparr>"

text \<open>The game status in the words of the specification (section 4.B).\<close>

definition spec_lost :: "Board \<Rightarrow> bool" where
  "spec_lost b =
     ((squares b ! nat (spec_den (sideToMove b)) \<noteq> 0
        \<and> pieceColor (squares b ! nat (spec_den (sideToMove b))) \<noteq> sideToMove b)
      \<or> pieceCount b ! nat (sideToMove b) = 0)"

definition spec_won :: "Board \<Rightarrow> bool" where
  "spec_won b = (pieceCount b ! nat (1 - sideToMove b) = 0)"

text \<open>Concrete positions for the examples.\<close>

definition startPos :: Board where
  "startPos = init testKeys zeroBoard"

definition emptyPos :: Board where
  "emptyPos = snd (projr (setFEN testKeys zeroBoard ''7/7/7/7/7/7/7/7/7 w''))"

definition rejectedPos :: Board where
  "rejectedPos = snd (projr (setFEN testKeys startPos ''7/7/7/7/7/Lx5/7/7/7 w''))"

definition ratCatPos :: Board where
  "ratCatPos = snd (projr (setFEN testKeys zeroBoard ''7/7/7/7/7/1cR4/7/7/7 w''))"

definition signedPiece :: "int \<Rightarrow> int \<Rightarrow> int" where
  "signedPiece color rk = (if color = LIGHT then rk else - rk)"

definition idxOk :: "Board \<Rightarrow> bool" where
  "idxOk b =
     (\<forall>c r. (c = LIGHT \<or> c = DARK) \<and> 1 \<le> r \<and> r \<le> 8 \<longrightarrow>
        arr2 (pieceSq b) c r = - 1
        \<or> (0 \<le> arr2 (pieceSq b) c r \<and> arr2 (pieceSq b) c r < NUM_SQ
           \<and> squares b ! nat (arr2 (pieceSq b) c r) = signedPiece c r))"

definition brdOk :: "Board \<Rightarrow> bool" where
  "brdOk b =
     (\<forall>s. 0 \<le> s \<and> s < NUM_SQ \<and> squares b ! nat s \<noteq> 0 \<longrightarrow>
        1 \<le> \<bar>squares b ! nat s\<bar> \<and> \<bar>squares b ! nat s\<bar> \<le> 8
        \<and> arr2 (pieceSq b) (pieceColor (squares b ! nat s)) \<bar>squares b ! nat s\<bar> = s)"

definition shapeOk :: "Board \<Rightarrow> bool" where
  "shapeOk b =
     (length (squares b) = 63 \<and> length (pieceSq b) = 2
      \<and> length (pieceSq b ! 0) = 9 \<and> length (pieceSq b ! 1) = 9
      \<and> length (pieceCount b) = 2)"

definition wf :: "zobrist \<Rightarrow> Board \<Rightarrow> bool" where
  "wf Z b =
     (shapeOk b \<and> idxOk b \<and> brdOk b
      \<and> (sideToMove b = LIGHT \<or> sideToMove b = DARK)
      \<and> hash b = hash (computeHash Z b)
      \<and> 0 \<le> ply b \<and> histLen b = ply b + 1
      \<and> posHistory b (nat (histLen b - 1)) = hash b)"

text \<open>Effect of makeMove, field by field.\<close>

definition movedBoard :: "zobrist \<Rightarrow> Board \<Rightarrow> Move \<Rightarrow> Board" where
  "movedBoard Z b m =
     (let fr = moveFrom m; to = moveTo m;
          piece = squares b ! nat fr; cap = squares b ! nat to;
          h = (if cap \<noteq> 0 then hash b XOR zobristPiece Z to \<bar>cap\<bar> (pieceColor cap) else hash b)
                XOR zobristPiece Z fr \<bar>piece\<bar> (pieceColor piece)
                XOR zobristPiece Z to \<bar>piece\<bar> (pieceColor piece) XOR zobristSide Z
      in b\<lparr>squares := (squares b)[nat to := piece, nat fr := 0],
           sideToMove := 1 - sideToMove b,
           hash := h,
           ply := ply b + 1,
           halfmove := (if cap \<noteq> 0 then 0 else halfmove b + 1),
           pieceSq := arr2_upd (if cap \<noteq> 0
                                then arr2_upd (pieceSq b) (pieceColor cap) \<bar>cap\<bar> (- 1)
                                else pieceSq b) (pieceColor piece) \<bar>piece\<bar> to,
           pieceCount := (if cap \<noteq> 0
                          then (pieceCount b)[nat (pieceColor cap) :=
                                 pieceCount b ! nat (pieceColor cap) - 1]
                          else pieceCount b),
           undoStack := (undoStack b)(nat (ply b) :=
              \<lparr>captured = cap, u_hash = hash b, u_halfmove = halfmove b, u_move = m\<rparr>),
           posHistory := (posHistory b)(nat (histLen b) := h),
           histLen := histLen b + 1\<rparr>)"

definition makeMove_ok :: "Board \<Rightarrow> Move \<Rightarrow> bool" where
  "makeMove_ok b m =
     (moveFrom m < NUM_SQ \<and> moveTo m < NUM_SQ \<and> 0 \<le> ply b \<and> ply b < MAX_GAME_LEN
      \<and> 0 \<le> histLen b \<and> histLen b < MAX_GAME_LEN
      \<and> \<bar>squares b ! nat (moveFrom m)\<bar> < NUM_PIECE_TYPES
      \<and> \<bar>squares b ! nat (moveTo m)\<bar> < NUM_PIECE_TYPES)"

definition unmovedBoard :: "Board \<Rightarrow> Board" where
  "unmovedBoard b =
     (let u = undoStack b (nat (ply b - 1));
          fr = moveFrom (u_move u); to = moveTo (u_move u);
          piece = squares b ! nat to; cap = captured u
      in b\<lparr>squares := (squares b)[nat fr := piece, nat to := cap],
           sideToMove := 1 - sideToMove b,
           hash := u_hash u,
           ply := ply b - 1,
           halfmove := u_halfmove u,
           pieceSq := (if cap \<noteq> 0
                       then arr2_upd (arr2_upd (pieceSq b) (pieceColor piece) \<bar>piece\<bar> fr)
                              (pieceColor cap) \<bar>cap\<bar> to
                       else arr2_upd (pieceSq b) (pieceColor piece) \<bar>piece\<bar> fr),
           pieceCount := (if cap \<noteq> 0
                          then (pieceCount b)[nat (pieceColor cap) :=
                                 pieceCount b ! nat (pieceColor cap) + 1]
                          else pieceCount b),
           histLen := histLen b - 1\<rparr>)"

definition unmakeMove_ok :: "Board \<Rightarrow> bool" where
  "unmakeMove_ok b =
     (let u = undoStack b (nat (ply b - 1))
      in 0 \<le> ply b - 1 \<and> ply b - 1 < MAX_GAME_LEN
         \<and> moveFrom (u_move u) < NUM_SQ \<and> moveTo (u_move u) < NUM_SQ
         \<and> \<bar>squares b ! nat (moveTo (u_move u))\<bar> < NUM_PIECE_TYPES
         \<and> \<bar>captured u\<bar> < NUM_PIECE_TYPES)"

definition movable :: "Board \<Rightarrow> Move \<Rightarrow> bool" where
  "movable b m =
     (let fr = moveFrom m; to = moveTo m; piece = squares b ! nat fr; cap = squares b ! nat to
      in fr < NUM_SQ \<and> to < NUM_SQ \<and> fr \<noteq> to
         \<and> 1 \<le> \<bar>piece\<bar> \<and> \<bar>piece\<bar> \<le> 8 \<and> arr2 (pieceSq b) (pieceColor piece) \<bar>piece\<bar> = fr
         \<and> (cap = 0 \<or> (1 \<le> \<bar>cap\<bar> \<and> \<bar>cap\<bar> \<le> 8 \<and> arr2 (pieceSq b) (pieceColor cap) \<bar>cap\<bar> = to
                        \<and> pieceColor cap \<noteq> pieceColor piece)))"

definition pkey :: "zobrist \<Rightarrow> int \<Rightarrow> int \<Rightarrow> 64 word" where
  "pkey Z sq p = (if p \<noteq> 0 then zobristPiece Z sq \<bar>p\<bar> (pieceColor p) else 0)"

definition landingOk :: "Board \<Rightarrow> int \<Rightarrow> int \<Rightarrow> int \<Rightarrow> int \<Rightarrow> bool" where
  "landingOk b rank color sq to =
     (\<not> (color = LIGHT \<and> terrain ! nat to = TERRAIN_DEN_LIGHT)
      \<and> \<not> (color = DARK \<and> terrain ! nat to = TERRAIN_DEN_DARK)
      \<and> (squares b ! nat to = 0
          \<or> (pieceColor (squares b ! nat to) \<noteq> color
              \<and> canCapture rank \<bar>squares b ! nat to\<bar> color sq to)))"

definition normalOk :: "Board \<Rightarrow> int \<Rightarrow> int \<Rightarrow> int \<Rightarrow> int \<Rightarrow> bool" where
  "normalOk b sq rank color d =
     (canStep sq d \<and> \<not> (terrain ! nat (sq + d) = TERRAIN_WATER \<and> rank \<noteq> RAT)
      \<and> landingOk b rank color sq (sq + d))"

definition jumpOk :: "Board \<Rightarrow> int \<Rightarrow> int \<Rightarrow> int \<Rightarrow> int \<times> int list \<Rightarrow> bool" where
  "jumpOk b sq rank color j =
     (\<not> list_ex (\<lambda>w. squares b ! nat w \<noteq> 0) (snd j) \<and> landingOk b rank color sq (fst j))"

definition pieceMoves :: "Board \<Rightarrow> int \<Rightarrow> int \<Rightarrow> Move list" where
  "pieceMoves b color rk =
     (let sq = arr2 (pieceSq b) color rk
      in if sq < 0 then []
         else map (\<lambda>d. encodeMove sq (sq + d)) (filter (normalOk b sq rk color) DIRS)
              @ (if rk = LION \<or> rk = TIGER
                 then map (\<lambda>j. encodeMove sq (fst j)) (filter (jumpOk b sq rk color) (jumpsOf sq))
                 else []))"

definition legalTarget :: "Board \<Rightarrow> int \<Rightarrow> int \<Rightarrow> int \<Rightarrow> bool" where
  "legalTarget b color sq to =
     (0 \<le> to \<and> to < 63 \<and> to \<noteq> sq
      \<and> (squares b ! nat to = 0 \<or> pieceColor (squares b ! nat to) \<noteq> color))"

inductive reachable :: "zobrist \<Rightarrow> Board \<Rightarrow> bool" for Z :: zobrist where
  reach_init: "length (pieceCount b) = 2 \<Longrightarrow> reachable Z (init Z b)"
| reach_move: "reachable Z b \<Longrightarrow> m \<in> set (generateMoves b) \<Longrightarrow> makeMove Z b m = Inr b'
               \<Longrightarrow> reachable Z b'"
| reach_null: "reachable Z b \<Longrightarrow> makeNullMove Z b = Inr b' \<Longrightarrow> reachable Z b'"

definition priorSame :: "Board \<Rightarrow> int set" where
  "priorSame b = {i. 0 \<le> i \<and> i < histLen b - 1 \<and> even (histLen b - 1 - i)
                    \<and> posHistory b (nat i) = hash b}"

definition hitsBelow :: "(nat \<Rightarrow> 64 word) \<Rightarrow> 64 word \<Rightarrow> int \<Rightarrow> int set" where
  "hitsBelow ph h i = {j. 0 \<le> j \<and> j \<le> i \<and> even (i - j) \<and> ph (nat j) = h}"

fun playMoves :: "zobrist \<Rightarrow> Board \<Rightarrow> Move list \<Rightarrow> error + Board" where
  "playMoves Z b [] = Inr b"
| "playMoves Z b (m # ms) =
     (case makeMove Z b m of Inl e \<Rightarrow> Inl e | Inr b' \<Rightarrow> playMoves Z b' ms)"

definition cycleMoves :: "Move list" where
  "cycleMoves = [encodeMove 20 27, encodeMove 42 35, encodeMove 27 20, encodeMove 35 42]"

definition cycleRun :: "nat \<Rightarrow> Move list" where
  "cycleRun k = map (\<lambda>i. cycleMoves ! (i mod 4)) [0..<k]"

definition cycSquares :: "nat \<Rightarrow> int list" where
  "cycSquares j =
     [6, 0, 0, 0, 0, 0, 7, 0, 2, 0, 0, 0, 3, 0, 8, 0, 4, 0, 5, 0,
      (if j = 0 \<or> j = 3 then 1 else 0), 0, 0, 0, 0, 0, 0,
      (if j = 1 \<or> j = 2 then 1 else 0), 0, 0, 0, 0, 0, 0, 0,
      (if j = 2 \<or> j = 3 then - 1 else 0), 0, 0, 0, 0, 0, 0,
      (if j = 0 \<or> j = 1 then - 1 else 0), 0, - 5, 0, - 4, 0,
      - 8, 0, - 3, 0, 0, 0, - 2, 0, - 7, 0, 0, 0, 0, 0, - 6]"

definition cycPieceSq :: "nat \<Rightarrow> int list list" where
  "cycPieceSq j =
     [[- 1, (if j = 0 \<or> j = 3 then 20 else 27), 8, 12, 16, 18, 0, 6, 14],
      [- 1, (if j = 0 \<or> j = 1 then 42 else 35), 54, 50, 46, 44, 62, 56, 48]]"

definition cycHash :: "zobrist \<Rightarrow> nat \<Rightarrow> 64 word" where
  "cycHash Z j =
     hash (computeHash Z (zeroBoard\<lparr>squares := cycSquares j, sideToMove := int (j mod 2)\<rparr>))"

definition cycState :: "zobrist \<Rightarrow> nat \<Rightarrow> Board \<Rightarrow> bool" where
  "cycState Z k B =
     (reachable Z B \<and> squares B = cycSquares (k mod 4) \<and> pieceSq B = cycPieceSq (k mod 4)
      \<and> sideToMove B = int (k mod 2) \<and> histLen B = int k + 1
      \<and> (\<forall>i \<le> k. posHistory B i = cycHash Z (i mod 4)))"

definition keysDistinct :: "zobrist \<Rightarrow> bool" where
  "keysDistinct Z =
     (zobristPiece Z 20 RAT LIGHT XOR zobristPiece Z 27 RAT LIGHT
      \<noteq> zobristPiece Z 42 RAT DARK XOR zobristPiece Z 35 RAT DARK)"





section \<open>Basic facts\<close>

lemmas consts_defs = BOARD_W_def BOARD_H_def NUM_SQ_def NONE_PC_def RAT_def CAT_def DOG_def WOLF_def
  LEOPARD_def TIGER_def LION_def ELEPHANT_def NUM_PIECE_TYPES_def LIGHT_def DARK_def
  TERRAIN_LAND_def TERRAIN_WATER_def TERRAIN_TRAP_LIGHT_def TERRAIN_TRAP_DARK_def
  TERRAIN_DEN_LIGHT_def TERRAIN_DEN_DARK_def DEN_LIGHT_SQ_def DEN_DARK_SQ_def
  DIR_N_def DIR_S_def DIR_E_def DIR_W_def DIRS_def makeSq_def MAX_GAME_LEN_def MAX_JUMPS_PER_SQ_def

lemma list_update_Cons_numeral: "(x # xs)[numeral k := y] = x # xs[pred_numeral k := y]"
  by (simp add: numeral_eq_Suc)

lemma replicate_numeral: "replicate (numeral k) x = x # replicate (pred_numeral k) x"
  by (simp add: numeral_eq_Suc)

lemmas list_eval = list_update_Cons_numeral replicate_numeral

lemma squares_computeHash [simp]: "squares (computeHash Z b) = squares b"
  and pieceSq_computeHash [simp]: "pieceSq (computeHash Z b) = pieceSq b"
  and pieceCount_computeHash [simp]: "pieceCount (computeHash Z b) = pieceCount b"
  and sideToMove_computeHash [simp]: "sideToMove (computeHash Z b) = sideToMove b"
  and ply_computeHash [simp]: "ply (computeHash Z b) = ply b"
  and halfmove_computeHash [simp]: "halfmove (computeHash Z b) = halfmove b"
  and histLen_computeHash [simp]: "histLen (computeHash Z b) = histLen b"
  and posHistory_computeHash [simp]: "posHistory (computeHash Z b) = posHistory b"
  and undoStack_computeHash [simp]: "undoStack (computeHash Z b) = undoStack b"
  by (simp_all add: computeHash_def Let_def)

lemma squares_pushHistory [simp]: "squares (pushHistory b) = squares b"
  and pieceSq_pushHistory [simp]: "pieceSq (pushHistory b) = pieceSq b"
  and pieceCount_pushHistory [simp]: "pieceCount (pushHistory b) = pieceCount b"
  and sideToMove_pushHistory [simp]: "sideToMove (pushHistory b) = sideToMove b"
  and hash_pushHistory [simp]: "hash (pushHistory b) = hash b"
  and ply_pushHistory [simp]: "ply (pushHistory b) = ply b"
  and halfmove_pushHistory [simp]: "halfmove (pushHistory b) = halfmove b"
  and histLen_pushHistory [simp]: "histLen (pushHistory b) = histLen b + 1"
  and posHistory_pushHistory [simp]:
    "posHistory (pushHistory b) = (posHistory b)(nat (histLen b) := hash b)"
  and undoStack_pushHistory [simp]: "undoStack (pushHistory b) = undoStack b"
  by (simp_all add: pushHistory_def)

lemma squares_place [simp]:
    "squares (place c r s b) = (squares b)[nat s := (if c = LIGHT then r else - r)]"
  and pieceSq_place [simp]: "pieceSq (place c r s b) = arr2_upd (pieceSq b) c r s"
  and pieceCount_place [simp]: "pieceCount (place c r s b) = pieceCount b"
  and sideToMove_place [simp]: "sideToMove (place c r s b) = sideToMove b"
  and ply_place [simp]: "ply (place c r s b) = ply b"
  and halfmove_place [simp]: "halfmove (place c r s b) = halfmove b"
  and histLen_place [simp]: "histLen (place c r s b) = histLen b"
  by (simp_all add: place_def)

lemma more_place [simp]:
  "undoStack (place c r s b) = undoStack b"
  "posHistory (place c r s b) = posHistory b"
  "hash (place c r s b) = hash b"
  by (simp_all add: place_def)

lemma init_fields:
  "ply (init Z b) = 0" "halfmove (init Z b) = 0" "histLen (init Z b) = 1"
  "undoStack (init Z b) = undoStack b"
  by (simp_all add: init_def Let_def)

lemma list2: "length xs = 2 \<Longrightarrow> \<exists>x y. xs = [x, y]"
  by (metis (no_types, opaque_lifting) One_nat_def Suc_1 length_0_conv length_Suc_conv)

lemma pieceCount_init: "length (pieceCount b) = 2 \<Longrightarrow> pieceCount (init Z b) = [8, 8]"
  using list2 [of "pieceCount b"] by (auto simp add: init_def Let_def LIGHT_def DARK_def)

subsection \<open>The tables, evaluated\<close>

lemma terrain_eq: "terrain =
 [0, 0, 2, 4, 2, 0, 0, 0, 0, 0, 2, 0, 0, 0, 0, 0, 0, 0, 0, 0, 0, 0, 1, 1, 0,
  1, 1, 0, 0, 1, 1, 0, 1, 1, 0, 0, 1, 1, 0, 1, 1, 0, 0, 0, 0, 0, 0, 0, 0, 0,
  0, 0, 3, 0, 0, 0, 0, 0, 3, 5, 3, 0, 0]"
  by (simp add: terrain_def Let_def consts_defs waterSqs_def lightTraps_def darkTraps_def list_eval)

lemma isWater_eq: "isWater =
 [False, False, False, False, False, False, False, False, False, False,
  False, False, False, False, False, False, False, False, False, False,
  False, False, True, True, False, True, True, False, False, True, True,
  False, True, True, False, False, True, True, False, True, True, False,
  False, False, False, False, False, False, False, False, False, False,
  False, False, False, False, False, False, False, False, False, False,
  False]"
  by (simp add: isWater_def Let_def consts_defs waterSqs_def list_eval)

lemma jumpsOf_table: "map jumpsOf [0..62] =
 [[], [], [], [], [], [], [], [], [], [], [], [], [], [], [],
  [(43, [22, 29, 36])], [(44, [23, 30, 37])], [], [(46, [25, 32, 39])],
  [(47, [26, 33, 40])], [], [(24, [22, 23])], [], [],
  [(21, [23, 22]), (27, [25, 26])], [], [], [(24, [26, 25])],
  [(31, [29, 30])], [], [], [(28, [30, 29]), (34, [32, 33])], [], [],
  [(31, [33, 32])], [(38, [36, 37])], [], [],
  [(35, [37, 36]), (41, [39, 40])], [], [], [(38, [40, 39])], [],
  [(15, [36, 29, 22])], [(16, [37, 30, 23])], [], [(18, [39, 32, 25])],
  [(19, [40, 33, 26])], [], [], [], [], [], [], [], [], [], [], [], [], [],
  [], []]"
  by code_simp

lemma jumpsOf_nth: "0 \<le> sq \<Longrightarrow> sq \<le> 62 \<Longrightarrow> jumpsOf sq = map jumpsOf [0..62] ! nat sq"
  by simp

lemma list_ex_map: "list_ex P (map f xs) = list_ex (\<lambda>x. P (f x)) xs"
  by (induction xs) auto

lemma addJumpMoves_step_jump_add:
  "addJumpMoves_step b sq rank color sj =
   (\<lambda>i. jump_add b sq rank color
     (dest sj ! nat i,
      map (\<lambda>j. blockingSqs sj ! nat (blockStart sj ! nat i + j)) [0..blockCount sj ! nat i - 1]))"
  by (intro ext) (simp add: jump_add_def addJumpMoves_step_def jumpBlocked_def list_ex_map Let_def)

lemma addJumpMoves_jumpsOf:
  "addJumpMoves b sq rank color moves = fold (jump_add b sq rank color) (jumpsOf sq) moves"
  by (simp add: addJumpMoves_def jumpsOf_def Let_def fold_map comp_def addJumpMoves_step_jump_add)

lemma isWater_all: "list_all (\<lambda>sq. isWater ! nat sq = spec_is_water sq) [0..62]"
  by (simp add: upto_rec1 isWater_eq spec_is_water_def spec_row_def spec_col_def)

lemma isWater_spec: "0 \<le> sq \<Longrightarrow> sq < NUM_SQ \<Longrightarrow> isWater ! nat sq = spec_is_water sq"
  using isWater_all by (simp add: list_all_iff NUM_SQ_def del: upto.simps)

lemma trap_all:
  "list_all (\<lambda>sq. (terrain ! nat sq = TERRAIN_TRAP_LIGHT) = spec_is_trap LIGHT sq
                \<and> (terrain ! nat sq = TERRAIN_TRAP_DARK) = spec_is_trap DARK sq) [0..62]"
  by (simp add: upto_rec1 terrain_eq spec_is_trap_def spec_adjacent_def spec_den_def
       spec_row_def spec_col_def consts_defs)

lemma trap_spec:
  assumes "0 \<le> sq" "sq < NUM_SQ"
  shows "(terrain ! nat sq = TERRAIN_TRAP_LIGHT) = spec_is_trap LIGHT sq"
    and "(terrain ! nat sq = TERRAIN_TRAP_DARK) = spec_is_trap DARK sq"
  using trap_all assms by (simp_all add: list_all_iff NUM_SQ_def del: upto.simps)

lemma canCapture_spec:
  assumes "0 \<le> fromSq" "fromSq < NUM_SQ" "0 \<le> toSq" "toSq < NUM_SQ"
      and "color = LIGHT \<or> color = DARK"
  shows "canCapture a d color fromSq toSq
         = (spec_capture a d color fromSq toSq \<or> (spec_is_water fromSq \<and> spec_is_water toSq))"
  using assms
  by (auto simp add: canCapture_def spec_capture_def isWater_spec trap_spec Let_def LIGHT_def DARK_def)

lemma canCapture_spec_rats:
  assumes "0 \<le> fromSq" "fromSq < NUM_SQ" "0 \<le> toSq" "toSq < NUM_SQ"
      and "color = LIGHT \<or> color = DARK"
      and "\<not> (spec_is_water fromSq \<and> spec_is_water toSq) \<or> (a = RAT \<and> d = RAT)"
  shows "canCapture a d color fromSq toSq = spec_capture a d color fromSq toSq"
  using canCapture_spec [OF assms(1-5), of a d] assms(6)
  by (auto simp add: spec_capture_def)

subsection \<open>The starting position, evaluated\<close>

lemma squares_init: "squares (init Z b) =
 [6, 0, 0, 0, 0, 0, 7, 0, 2, 0, 0, 0, 3, 0, 8, 0, 4, 0, 5, 0, 1, 0, 0, 0, 0,
  0, 0, 0, 0, 0, 0, 0, 0, 0, 0, 0, 0, 0, 0, 0, 0, 0, - 1, 0, - 5, 0, - 4, 0,
  - 8, 0, - 3, 0, 0, 0, - 2, 0, - 7, 0, 0, 0, 0, 0, - 6]"
  by (simp add: init_def Let_def consts_defs list_eval)

lemma pieceSq_init: "pieceSq (init Z b) =
 [[- 1, 20, 8, 12, 16, 18, 0, 6, 14],
  [- 1, 42, 54, 50, 46, 44, 62, 56, 48]]"
  by (simp add: init_def Let_def consts_defs list_eval arr2_upd_def)

lemma sideToMove_init: "sideToMove (init Z b) = 0"
  by (simp add: init_def Let_def consts_defs)

lemma jumpsOf_0: "jumpsOf 0 = []" and jumpsOf_6: "jumpsOf 6 = []"
  by (simp_all add: jumpsOf_nth jumpsOf_table del: upto.simps)

lemmas movegen_defs = generateMoves_def generateMoves_step_def arr2_def addNormalMoves_def
  addNormalMoves_step_def canStep_def sqCol_def c_rem_def c_div_def Let_def terrain_eq isWater_eq
  addJumpMoves_jumpsOf upto_rec1 encodeMove_def moveFrom_def moveTo_def pieceColor_def
  canCapture_def jump_add_def

subsection \<open>Parsing\<close>

lemmas fen_defs = setFEN_def charToRank_def toupper_def isupper_def consts_defs Let_def
  arr2_upd_def list_eval

lemma setFEN_loop_keeps:
  "setFEN_loop b r c t = Inr (ok, b', rest) \<Longrightarrow>
   sideToMove b' = sideToMove b \<and> hash b' = hash b \<and> ply b' = ply b
   \<and> halfmove b' = halfmove b \<and> histLen b' = histLen b
   \<and> posHistory b' = posHistory b \<and> undoStack b' = undoStack b"
proof (induction b r c t rule: setFEN_loop.induct)
  case (1 b row col)
  then show ?case by simp
next
  case (2 b row col ch rest')
  then show ?case
    by (auto simp add: Let_def split: if_splits)
qed

lemma setFEN_loop_reject:
  "setFEN_loop b r c t = Inr (False, b', rest) \<Longrightarrow>
   \<exists>pre ch. t = pre @ ch # rest \<and> charToRank ch = 0 \<and> setFEN_loop b r c pre = Inr (True, b', [])"
proof (induction b r c t rule: setFEN_loop.induct)
  case (1 b row col)
  then show ?case by simp
next
  case (2 b row col ch rest')
  have step: "\<exists>pre ch'. ch # rest' = pre @ ch' # rest \<and> charToRank ch' = 0
                \<and> setFEN_loop b row col pre = Inr (True, b', [])"
    if rec: "setFEN_loop b row col (ch # rest') = setFEN_loop b1 r1 c1 rest'"
      and pre: "\<And>pre. setFEN_loop b row col (ch # pre) = setFEN_loop b1 r1 c1 pre"
      and ih: "setFEN_loop b1 r1 c1 rest' = Inr (False, b', rest) \<Longrightarrow>
            \<exists>pre ch. rest' = pre @ ch # rest \<and> charToRank ch = 0
              \<and> setFEN_loop b1 r1 c1 pre = Inr (True, b', [])"
    for b1 r1 c1
  proof -
    from rec "2.prems" have "setFEN_loop b1 r1 c1 rest' = Inr (False, b', rest)" by simp
    from ih [OF this] obtain p c' where
      p: "rest' = p @ c' # rest" "charToRank c' = 0" "setFEN_loop b1 r1 c1 p = Inr (True, b', [])"
      by blast
    have "ch # rest' = (ch # p) @ c' # rest" using p(1) by simp
    moreover have "setFEN_loop b row col (ch # p) = Inr (True, b', [])" using pre p(3) by simp
    ultimately show ?thesis using p(2) by blast
  qed
  show ?case
  proof (cases "\<not> row \<ge> 0 \<or> ch = CHR '' ''")
    case True
    with "2.prems" show ?thesis by (auto split: if_splits)
  next
    case base: False
    show ?thesis
    proof (cases "ch = CHR ''/''")
      case True
      with base show ?thesis
        using step [of b "row - 1" 0] "2.IH"(1) by simp
    next
      case nslash: False
      show ?thesis
      proof (cases "(of_char ch :: int) \<ge> of_char CHR ''1'' \<and> (of_char ch :: int) \<le> of_char CHR ''7''")
        case True
        with base nslash show ?thesis
          using step [of b row "col + (of_char ch - of_char CHR ''0'')"] "2.IH"(2) by simp
      next
        case ndigit: False
        show ?thesis
        proof (cases "charToRank ch = 0")
          case True
          with base nslash ndigit "2.prems" have "b' = b" "rest = rest'" by auto
          with True show ?thesis by (intro exI [of _ "[]"] exI [of _ ch]) simp
        next
          case rk: False
          with base nslash ndigit "2.prems"
          have inb: "\<not> (makeSq row col < 0 \<or> makeSq row col \<ge> NUM_SQ)"
            by (auto simp add: Let_def split: if_splits)
          let ?color = "if isupper (of_char ch) then LIGHT else DARK"
          let ?sq = "makeSq row col"
          let ?rk = "charToRank ch"
          let ?b1 = "b\<lparr>squares := (squares b)[nat ?sq := (if ?color = LIGHT then ?rk else - ?rk)],
                        pieceSq := arr2_upd (pieceSq b) ?color ?rk ?sq,
                        pieceCount := (pieceCount b)[nat ?color := pieceCount b ! nat ?color + 1]\<rparr>"
          have eq: "setFEN_loop b row col (ch # t) = setFEN_loop ?b1 row (col + 1) t" for t
            using base nslash ndigit rk inb by (auto simp add: Let_def)
          have ih: "setFEN_loop ?b1 row (col + 1) rest' = Inr (False, b', rest) \<Longrightarrow>
                \<exists>pre ch. rest' = pre @ ch # rest \<and> charToRank ch = 0
                  \<and> setFEN_loop ?b1 row (col + 1) pre = Inr (True, b', [])"
            using "2.IH"(3) base nslash ndigit rk inb by (auto simp add: Let_def)
          show ?thesis by (rule step [OF eq eq ih])
        qed
      qed
    qed
  qed
qed

lemma setFEN_rejects:
  "setFEN Z b t = Inr (False, b') \<Longrightarrow> \<exists>rest. setFEN_loop (clearBoard b) 8 0 t = Inr (False, b', rest)"
  unfolding setFEN_def clearBoard_def Let_def
  by (simp split: sum.splits prod.splits if_splits)

lemma clearBoard_fields:
  "sideToMove (clearBoard b) = sideToMove b" "hash (clearBoard b) = hash b"
  "posHistory (clearBoard b) = posHistory b" "undoStack (clearBoard b) = undoStack b"
  "ply (clearBoard b) = 0" "halfmove (clearBoard b) = 0" "histLen (clearBoard b) = 0"
  by (simp_all add: clearBoard_def)

lemma or_push6: 
  fixes f t :: int
  assumes "0 \<le> f" "f < 64" 
  shows "f OR push_bit 6 t = f + 64 * t"
proof -
  have "f = take_bit 6 f" using assms by (simp add: take_bit_int_eq_self)
  then have "f OR push_bit 6 t = take_bit 6 f OR push_bit 6 t" by simp
  also have "\<dots> = take_bit 6 f + push_bit 6 t"
    by (rule disjunctive_add [symmetric]) (auto simp add: bit_simps)
  finally show ?thesis using \<open>f = take_bit 6 f\<close> by (simp add: push_bit_eq_mult)
qed

lemma uint_woi16: "0 \<le> k \<Longrightarrow> k < 65536 \<Longrightarrow> uint (word_of_int k :: 16 word) = k"
  by (simp add: uint_word_of_int_eq take_bit_int_eq_self)

lemma and63: "(k::int) AND 63 = k mod 64"
proof -
  have "k AND mask 6 = take_bit 6 k" by (simp add: take_bit_eq_mask)
  then show ?thesis by (simp add: take_bit_eq_mod mask_eq_exp_minus_1)
qed

lemma moveFrom_encodeMove:
  assumes "0 \<le> f" "f < 64" "0 \<le> t" "t < 64"
  shows "moveFrom (encodeMove f t) = f"
proof -
  have r: "0 \<le> f + 64 * t" "f + 64 * t < 65536" using assms by auto
  have "uint (word_of_int (f + 64 * t) :: 16 word) = f + 64 * t"
    using r by (rule uint_woi16)
  moreover have "(f + 64 * t) AND 63 = (f + 64 * t) mod 64"
    by (rule and63)
  ultimately show ?thesis using assms by (simp add: moveFrom_def encodeMove_def or_push6)
qed

lemma moveTo_encodeMove:
  assumes "0 \<le> f" "f < 64" "0 \<le> t" "t < 64"
  shows "moveTo (encodeMove f t) = t"
proof -
  have r: "0 \<le> f + 64 * t" "f + 64 * t < 65536" using assms by auto
  have "uint (word_of_int (f + 64 * t) :: 16 word) = f + 64 * t"
    using r by (rule uint_woi16)
  moreover have "drop_bit 6 (f + 64 * t) = t"
    using assms by (simp add: drop_bit_eq_div)
  moreover have "t AND 63 = t mod 64"
    by (rule and63)
  ultimately show ?thesis using assms by (simp add: moveTo_def encodeMove_def or_push6)
qed

lemma all_squares_list: "(\<forall>s. 0 \<le> s \<and> s < NUM_SQ \<longrightarrow> P s) = list_all P [0..62]"
  by (auto simp add: list_all_iff NUM_SQ_def simp del: upto.simps)

lemma makeMove_eq:
  "makeMove Z b m = (if makeMove_ok b m then Inr (movedBoard Z b m) else Inl OutOfBounds)"
proof (cases "squares b ! nat (moveTo m) = 0")
  case True
  then show ?thesis
    unfolding makeMove_def makeMove_ok_def movedBoard_def pushHistory_def
    by (simp add: Let_def xor.assoc)
next
  case False
  then show ?thesis
    unfolding makeMove_def makeMove_ok_def movedBoard_def pushHistory_def
    by (simp add: Let_def xor.assoc)
qed

lemma unmakeMove_eq:
  "unmakeMove b = (if unmakeMove_ok b then Inr (unmovedBoard b) else Inl OutOfBounds)"
proof (cases "captured (undoStack b (nat (ply b - 1))) = 0")
  case True
  then show ?thesis
    unfolding unmakeMove_def unmakeMove_ok_def unmovedBoard_def
    by (simp add: Let_def)
next
  case False
  then show ?thesis
    unfolding unmakeMove_def unmakeMove_ok_def unmovedBoard_def
    by (simp add: Let_def)
qed

lemma makeNullMove_eq:
  "makeNullMove Z b =
     (if 0 \<le> ply b \<and> ply b < MAX_GAME_LEN \<and> 0 \<le> histLen b \<and> histLen b < MAX_GAME_LEN
      then Inr (b\<lparr>sideToMove := 1 - sideToMove b, hash := hash b XOR zobristSide Z,
                  ply := ply b + 1,
                  undoStack := (undoStack b)(nat (ply b) :=
                    \<lparr>captured = 0, u_hash = hash b, u_halfmove = halfmove b, u_move = MOVE_NONE\<rparr>),
                  posHistory := (posHistory b)(nat (histLen b) := hash b XOR zobristSide Z),
                  histLen := histLen b + 1\<rparr>)
      else Inl OutOfBounds)"
  unfolding makeNullMove_def pushHistory_def by (auto simp add: Let_def)

lemma unmakeNullMove_eq:
  "unmakeNullMove b =
     (if 0 \<le> ply b - 1 \<and> ply b - 1 < MAX_GAME_LEN
      then Inr (b\<lparr>sideToMove := 1 - sideToMove b, hash := u_hash (undoStack b (nat (ply b - 1))),
                  ply := ply b - 1, halfmove := u_halfmove (undoStack b (nat (ply b - 1))),
                  histLen := histLen b - 1\<rparr>)
      else Inl OutOfBounds)"
  unfolding unmakeNullMove_def by (auto simp add: Let_def)

lemma moveFrom_nonneg [simp]: "0 \<le> moveFrom m" and moveTo_nonneg [simp]: "0 \<le> moveTo m"
  by (simp_all add: moveFrom_def moveTo_def)

lemma pieceColor_cases: "pieceColor p = 0 \<or> pieceColor p = 1"
  by (simp add: pieceColor_def LIGHT_def DARK_def)

lemma arr2_arr2_upd:
  assumes "0 \<le> i" "nat i < length a" "0 \<le> j" "nat j < length (a ! nat i)" "0 \<le> i'" "0 \<le> j'"
  shows "arr2 (arr2_upd a i j v) i' j' = (if i = i' \<and> j = j' then v else arr2 a i' j')"
  using assms by (auto simp add: arr2_def arr2_upd_def nth_list_update)

lemma length_arr2_upd [simp]: "length (arr2_upd a i j v) = length a"
  by (simp add: arr2_upd_def)

lemma length_arr2_upd_nth [simp]: "length (arr2_upd a i j v ! k) = length (a ! k)"
  by (cases "nat i = k"; cases "nat i < length a") (simp_all add: arr2_upd_def list_update_beyond)

lemma arr2_upd_same: "arr2_upd a i j (arr2 a i j) = a"
  by (simp add: arr2_def arr2_upd_def)

lemma arr2_upd_twice:
  "arr2_upd (arr2_upd a i j v) i j w = arr2_upd a i j w"
  by (cases "nat i < length a") (simp_all add: arr2_upd_def not_less list_update_beyond)

lemma arr2_upd_swap:
  assumes "i \<noteq> i'" "0 \<le> i" "0 \<le> i'"
  shows "arr2_upd (arr2_upd a i j v) i' j' w = arr2_upd (arr2_upd a i' j' w) i j v"
  using assms by (auto simp add: arr2_upd_def list_update_swap nth_list_update)

lemma roundtrip_squares:
  assumes "length sq = 63" "fr < 63" "to < 63" "0 \<le> fr" "0 \<le> to" "fr \<noteq> (to::int)"
  shows "sq[nat to := sq ! nat fr, nat fr := 0, nat fr := (sq[nat to := sq ! nat fr, nat fr := 0]) ! nat to,
            nat to := sq ! nat to] = sq"
  using assms by (simp add: list_update_swap [of "nat fr" "nat to"] list_update_same_conv)

lemma roundtrip_pieceSq_quiet:
  assumes "arr2 ps c r = fr"
  shows "arr2_upd (arr2_upd ps c r to) c r fr = ps"
  using assms arr2_upd_same [of ps c r] by (simp add: arr2_upd_twice)

lemma roundtrip_pieceSq_capture:
  assumes "arr2 ps c r = fr" "arr2 ps cc cr = to" "c \<noteq> cc" "0 \<le> c" "0 \<le> cc"
  shows "arr2_upd (arr2_upd (arr2_upd (arr2_upd ps cc cr (- 1)) c r to) c r fr) cc cr to = ps"
proof -
  have "arr2_upd (arr2_upd (arr2_upd (arr2_upd ps cc cr (- 1)) c r to) c r fr) cc cr to
        = arr2_upd (arr2_upd (arr2_upd ps cc cr (- 1)) c r fr) cc cr to"
    by (simp add: arr2_upd_twice)
  also have "\<dots> = arr2_upd (arr2_upd (arr2_upd ps cc cr (- 1)) cc cr to) c r fr"
    using assms(3-5) by (rule arr2_upd_swap)
  also have "\<dots> = arr2_upd (arr2_upd ps cc cr to) c r fr"
    by (simp add: arr2_upd_twice)
  also have "\<dots> = arr2_upd ps c r fr"
    using assms(2) arr2_upd_same [of ps cc cr] by simp
  also have "\<dots> = ps"
    using assms(1) arr2_upd_same [of ps c r] by simp
  finally show ?thesis .
qed

lemma roundtrip_pieceCount:
  assumes "i < length (pc :: int list)"
  shows "(pc[i := pc ! i - 1])[i := (pc[i := pc ! i - 1]) ! i + 1] = pc"
  using assms by (simp add: list_update_same_conv)

lemma movedBoard_sel:
  "squares (movedBoard Z b m) = (squares b)[nat (moveTo m) := squares b ! nat (moveFrom m), nat (moveFrom m) := 0]"
  "sideToMove (movedBoard Z b m) = 1 - sideToMove b"
  "ply (movedBoard Z b m) = ply b + 1"
  "histLen (movedBoard Z b m) = histLen b + 1"
  "halfmove (movedBoard Z b m) = (if squares b ! nat (moveTo m) \<noteq> 0 then 0 else halfmove b + 1)"
  "undoStack (movedBoard Z b m) (nat (ply b)) =
      \<lparr>captured = squares b ! nat (moveTo m), u_hash = hash b, u_halfmove = halfmove b, u_move = m\<rparr>"
  "posHistory (movedBoard Z b m) (nat (histLen b)) = hash (movedBoard Z b m)"
  by (simp_all add: movedBoard_def Let_def)

lemma roundtrip_board:
  assumes sh: "shapeOk b" and mv: "movable b m"
  shows "unmovedBoard (movedBoard Z b m)
         = b\<lparr>undoStack := undoStack (movedBoard Z b m), posHistory := posHistory (movedBoard Z b m)\<rparr>"
proof -
  define fr to piece cap where "fr = moveFrom m" and "to = moveTo m"
    and "piece = squares b ! nat fr" and "cap = squares b ! nat to"
  note d = fr_def to_def piece_def cap_def
  from mv have rng: "fr < 63" "to < 63" "fr \<noteq> to" "0 \<le> fr" "0 \<le> to"
    and pc: "arr2 (pieceSq b) (pieceColor piece) \<bar>piece\<bar> = fr"
    and cp: "cap = 0 \<or> (arr2 (pieceSq b) (pieceColor cap) \<bar>cap\<bar> = to \<and> pieceColor cap \<noteq> pieceColor piece)"
    by (auto simp add: movable_def Let_def d NUM_SQ_def)
  from sh have len: "length (squares b) = 63" "length (pieceCount b) = 2"
    by (simp_all add: shapeOk_def)
  have nn: "nat fr \<noteq> nat to" using rng by auto
  have at_to: "(squares b)[nat to := piece, nat fr := 0] ! nat to = piece"
    using rng len nn by simp
  have sq: "(squares b)[nat to := piece, nat fr := 0, nat fr := piece, nat to := cap] = squares b"
    using roundtrip_squares [OF len(1) rng(1,2,4,5,3)] at_to by (simp add: d)
  have col: "0 \<le> pieceColor x" "nat (pieceColor x) < 2" for x
    using pieceColor_cases [of x] by auto
  have ps: "(if cap \<noteq> 0
             then arr2_upd (arr2_upd (arr2_upd (arr2_upd (pieceSq b) (pieceColor cap) \<bar>cap\<bar> (- 1))
                     (pieceColor piece) \<bar>piece\<bar> to) (pieceColor piece) \<bar>piece\<bar> fr)
                     (pieceColor cap) \<bar>cap\<bar> to
             else arr2_upd (arr2_upd (pieceSq b) (pieceColor piece) \<bar>piece\<bar> to)
                     (pieceColor piece) \<bar>piece\<bar> fr) = pieceSq b"
    using pc cp col roundtrip_pieceSq_quiet [of "pieceSq b" "pieceColor piece" "\<bar>piece\<bar>" fr to]
      roundtrip_pieceSq_capture [of "pieceSq b" "pieceColor piece" "\<bar>piece\<bar>" fr
        "pieceColor cap" "\<bar>cap\<bar>" to]
    by auto
  have cnt: "(if cap \<noteq> 0
              then ((pieceCount b)[nat (pieceColor cap) := pieceCount b ! nat (pieceColor cap) - 1])
                     [nat (pieceColor cap) :=
                        ((pieceCount b)[nat (pieceColor cap) := pieceCount b ! nat (pieceColor cap) - 1])
                          ! nat (pieceColor cap) + 1]
              else pieceCount b) = pieceCount b"
    using roundtrip_pieceCount [of "nat (pieceColor cap)" "pieceCount b"] col len by simp
  show ?thesis
    unfolding unmovedBoard_def movedBoard_def Let_def
    using at_to sq ps cnt
    by (simp add: d [symmetric] split: if_splits)
qed

lemma computeHash_step_pkey:
  "computeHash_step Z sqs = (\<lambda>i h. h XOR pkey Z (int i) (sqs ! i))"
  by (intro ext) (simp add: computeHash_step_def pkey_def Let_def)

lemma hfold_beyond:
  "n \<le> i \<Longrightarrow> fold (computeHash_step Z (sqs[i := v])) [0..<n] h
             = fold (computeHash_step Z sqs) [0..<n] h"
  by (induction n) (simp_all add: computeHash_step_pkey)

lemma hfold_update:
  "i < n \<Longrightarrow> n \<le> length sqs \<Longrightarrow>
   fold (computeHash_step Z (sqs[i := v])) [0..<n] h
   = fold (computeHash_step Z sqs) [0..<n] h XOR pkey Z (int i) (sqs ! i) XOR pkey Z (int i) v"
proof (induction n)
  case 0
  then show ?case by simp
next
  case (Suc n)
  show ?case
  proof (cases "i = n")
    case True
    then show ?thesis
      using Suc.prems hfold_beyond [of n i Z sqs v h]
      by (simp add: computeHash_step_pkey xor.assoc)
  next
    case False
    with Suc.prems have "i < n" "n \<le> length sqs" by auto
    from Suc.IH [OF this] False show ?thesis
      by (simp add: computeHash_step_pkey xor.assoc xor.left_commute xor.commute)
  qed
qed

lemma hash_computeHash:
  "hash (computeHash Z b) =
     (let h = fold (computeHash_step Z (squares b)) [0..<63] 0
      in if sideToMove b = DARK then h XOR zobristSide Z else h)"
  by (simp add: computeHash_def Let_def NUM_SQ_def)

lemma hash_movedBoard:
  assumes sh: "shapeOk b" and mv: "movable b m"
    and side: "sideToMove b = LIGHT \<or> sideToMove b = DARK"
    and h: "hash b = hash (computeHash Z b)"
  shows "hash (movedBoard Z b m) = hash (computeHash Z (movedBoard Z b m))"
proof -
  define fr to piece cap where "fr = moveFrom m" and "to = moveTo m"
    and "piece = squares b ! nat fr" and "cap = squares b ! nat to"
  note d = fr_def to_def piece_def cap_def
  define H where "H = fold (computeHash_step Z (squares b)) [0..<63] 0"
  from mv have rng: "fr < 63" "to < 63" "fr \<noteq> to" "0 \<le> fr" "0 \<le> to" and p0: "piece \<noteq> 0"
    by (auto simp add: movable_def Let_def d NUM_SQ_def)
  from sh have len: "length (squares b) = 63" by (simp add: shapeOk_def)
  have nn: "nat fr \<noteq> nat to" "nat fr < 63" "nat to < 63" using rng by auto
  have "fold (computeHash_step Z ((squares b)[nat to := piece, nat fr := 0])) [0..<63] 0
        = fold (computeHash_step Z ((squares b)[nat to := piece])) [0..<63] 0
            XOR pkey Z (int (nat fr)) (((squares b)[nat to := piece]) ! nat fr) XOR pkey Z (int (nat fr)) 0"
    using nn len by (intro hfold_update) simp_all
  also have "fold (computeHash_step Z ((squares b)[nat to := piece])) [0..<63] 0
        = H XOR pkey Z (int (nat to)) cap XOR pkey Z (int (nat to)) piece"
    unfolding H_def cap_def using nn len by (intro hfold_update) simp_all
  finally have new:
    "fold (computeHash_step Z ((squares b)[nat to := piece, nat fr := 0])) [0..<63] 0
     = H XOR pkey Z to cap XOR pkey Z to piece XOR pkey Z fr piece"
    using nn rng len by (simp add: xor.assoc piece_def pkey_def)
  have old: "hash b = (if sideToMove b = DARK then H XOR zobristSide Z else H)"
    using h by (simp add: hash_computeHash H_def)
  have sidex: "(if 1 - sideToMove b = DARK then X XOR zobristSide Z else X)
               = (if sideToMove b = DARK then X XOR zobristSide Z else X) XOR zobristSide Z" for X
    using side by (auto simp add: LIGHT_def DARK_def xor.assoc)
  have lhs: "hash (movedBoard Z b m)
     = (if cap \<noteq> 0 then hash b XOR zobristPiece Z to \<bar>cap\<bar> (pieceColor cap) else hash b)
         XOR zobristPiece Z fr \<bar>piece\<bar> (pieceColor piece)
         XOR zobristPiece Z to \<bar>piece\<bar> (pieceColor piece) XOR zobristSide Z"
    by (simp add: movedBoard_def Let_def d)
  have rhs: "hash (computeHash Z (movedBoard Z b m))
     = (if 1 - sideToMove b = DARK
        then (H XOR pkey Z to cap XOR pkey Z to piece XOR pkey Z fr piece) XOR zobristSide Z
        else (H XOR pkey Z to cap XOR pkey Z to piece XOR pkey Z fr piece))"
    using new by (simp add: hash_computeHash movedBoard_sel d)
  show ?thesis
    unfolding lhs rhs sidex old using p0
    by (simp add: pkey_def xor.assoc xor.left_commute xor.commute)
qed

lemma signedPiece_pieceColor: "p \<noteq> 0 \<Longrightarrow> signedPiece (pieceColor p) \<bar>p\<bar> = p"
  by (auto simp add: signedPiece_def pieceColor_def LIGHT_def DARK_def)

lemma pieceColor_signedPiece:
  "(c = LIGHT \<or> c = DARK) \<Longrightarrow> 1 \<le> r \<Longrightarrow> pieceColor (signedPiece c r) = c \<and> \<bar>signedPiece c r\<bar> = r"
  by (auto simp add: signedPiece_def pieceColor_def LIGHT_def DARK_def)

lemma shapeOk_movedBoard: "shapeOk b \<Longrightarrow> shapeOk (movedBoard Z b m)"
  by (simp add: shapeOk_def movedBoard_def Let_def)

lemma pieceSq_movedBoard:
  assumes sh: "shapeOk b" and mv: "movable b m" and cv: "(c = LIGHT \<or> c = DARK)" "1 \<le> r" "r \<le> 8"
  shows "arr2 (pieceSq (movedBoard Z b m)) c r =
     (if c = pieceColor (squares b ! nat (moveFrom m)) \<and> r = \<bar>squares b ! nat (moveFrom m)\<bar>
      then moveTo m
      else if squares b ! nat (moveTo m) \<noteq> 0 \<and> c = pieceColor (squares b ! nat (moveTo m))
              \<and> r = \<bar>squares b ! nat (moveTo m)\<bar>
      then - 1
      else arr2 (pieceSq b) c r)"
proof -
  define piece cap where "piece = squares b ! nat (moveFrom m)" and "cap = squares b ! nat (moveTo m)"
  from sh have len: "length (pieceSq b) = 2" "length (pieceSq b ! 0) = 9" "length (pieceSq b ! 1) = 9"
    by (simp_all add: shapeOk_def)
  have row: "nat (pieceColor x) < 2" "0 \<le> pieceColor x"
       "length (pieceSq b ! nat (pieceColor x)) = 9" for x
    using pieceColor_cases [of x] len by auto
  from mv have pr: "1 \<le> \<bar>piece\<bar>" "\<bar>piece\<bar> \<le> 8" and cr: "cap \<noteq> 0 \<Longrightarrow> 1 \<le> \<bar>cap\<bar> \<and> \<bar>cap\<bar> \<le> 8"
    by (auto simp add: movable_def Let_def piece_def cap_def)
  have c0: "0 \<le> c" "nat c < 2" "length (pieceSq b ! nat c) = 9"
    using cv len by (auto simp add: LIGHT_def DARK_def)
  show ?thesis
  proof (cases "cap = 0")
    case True
    then show ?thesis
      using pr row c0 cv len
      by (simp add: movedBoard_def Let_def piece_def [symmetric] cap_def [symmetric] arr2_arr2_upd)
  next
    case False
    with cr have cr': "1 \<le> \<bar>cap\<bar>" "\<bar>cap\<bar> \<le> 8" by auto
    from False show ?thesis
      using pr cr' row c0 cv len
      by (simp add: movedBoard_def Let_def piece_def [symmetric] cap_def [symmetric] arr2_arr2_upd)
  qed
qed

lemma idxOk_movedBoard:
  assumes sh: "shapeOk b" and mv: "movable b m" and io: "idxOk b"
  shows "idxOk (movedBoard Z b m)"
  unfolding idxOk_def
proof (intro allI impI)
  fix c r :: int
  assume cr: "(c = LIGHT \<or> c = DARK) \<and> 1 \<le> r \<and> r \<le> 8"
  define fr to piece cap where "fr = moveFrom m" and "to = moveTo m"
    and "piece = squares b ! nat fr" and "cap = squares b ! nat to"
  note d = fr_def to_def piece_def cap_def
  let ?b = "movedBoard Z b m"
  from mv have rng: "fr < 63" "to < 63" "fr \<noteq> to" "0 \<le> fr" "0 \<le> to" and p0: "piece \<noteq> 0"
    by (auto simp add: movable_def Let_def d NUM_SQ_def)
  from sh have len: "length (squares b) = 63" by (simp add: shapeOk_def)
  have sq1: "squares ?b = (squares b)[nat to := piece, nat fr := 0]"
    by (simp add: movedBoard_sel d)
  have ps1: "arr2 (pieceSq ?b) c r =
     (if c = pieceColor piece \<and> r = \<bar>piece\<bar> then to
      else if cap \<noteq> 0 \<and> c = pieceColor cap \<and> r = \<bar>cap\<bar> then - 1
      else arr2 (pieceSq b) c r)"
    using pieceSq_movedBoard [OF sh mv, of c r Z] cr by (simp add: d)
  from io cr have old: "arr2 (pieceSq b) c r = - 1
      \<or> (0 \<le> arr2 (pieceSq b) c r \<and> arr2 (pieceSq b) c r < 63
         \<and> squares b ! nat (arr2 (pieceSq b) c r) = signedPiece c r)"
    by (simp add: idxOk_def NUM_SQ_def)
  have sp: "pieceColor (signedPiece c r) = c" "\<bar>signedPiece c r\<bar> = r" "signedPiece c r \<noteq> 0"
    using pieceColor_signedPiece [of c r] cr by auto
  show "arr2 (pieceSq ?b) c r = - 1
      \<or> (0 \<le> arr2 (pieceSq ?b) c r \<and> arr2 (pieceSq ?b) c r < NUM_SQ
         \<and> squares ?b ! nat (arr2 (pieceSq ?b) c r) = signedPiece c r)"
  proof (cases "c = pieceColor piece \<and> r = \<bar>piece\<bar>")
    case True
    then have "signedPiece c r = piece" using signedPiece_pieceColor [OF p0] by simp
    moreover have "arr2 (pieceSq ?b) c r = to" using ps1 True by auto
    moreover have "nat fr \<noteq> nat to" using rng by auto
    ultimately show ?thesis using rng len by (simp add: sq1 NUM_SQ_def)
  next
    case np: False
    show ?thesis
    proof (cases "cap \<noteq> 0 \<and> c = pieceColor cap \<and> r = \<bar>cap\<bar>")
      case True
      with np ps1 show ?thesis by auto
    next
      case nc: False
      from old show ?thesis
      proof
        assume "arr2 (pieceSq b) c r = - 1"
        with np nc ps1 show ?thesis by auto
      next
        assume a: "0 \<le> arr2 (pieceSq b) c r \<and> arr2 (pieceSq b) c r < 63
           \<and> squares b ! nat (arr2 (pieceSq b) c r) = signedPiece c r"
        define s where "s = arr2 (pieceSq b) c r"
        from a have s: "0 \<le> s" "s < 63" "squares b ! nat s = signedPiece c r" by (simp_all add: s_def)
        have "s \<noteq> fr" using s(3) np sp by (auto simp add: piece_def)
        moreover have "s \<noteq> to" using s(3) nc sp by (auto simp add: cap_def)
        ultimately have "nat s \<noteq> nat fr" "nat s \<noteq> nat to" using s rng by auto
        then have "squares ?b ! nat s = signedPiece c r"
          using s by (simp add: sq1)
        moreover have "arr2 (pieceSq ?b) c r = s" using np nc ps1 by (auto simp add: s_def)
        ultimately show ?thesis using s by (simp add: NUM_SQ_def)
      qed
    qed
  qed
qed

lemma brdOk_movedBoard:
  assumes sh: "shapeOk b" and mv: "movable b m" and bo: "brdOk b"
  shows "brdOk (movedBoard Z b m)"
  unfolding brdOk_def
proof (intro allI impI)
  fix s :: int
  let ?b = "movedBoard Z b m"
  assume s: "0 \<le> s \<and> s < NUM_SQ \<and> squares ?b ! nat s \<noteq> 0"
  define fr to piece cap where "fr = moveFrom m" and "to = moveTo m"
    and "piece = squares b ! nat fr" and "cap = squares b ! nat to"
  note d = fr_def to_def piece_def cap_def
  from mv have rng: "fr < 63" "to < 63" "fr \<noteq> to" "0 \<le> fr" "0 \<le> to" and p0: "piece \<noteq> 0"
    and pr: "1 \<le> \<bar>piece\<bar>" "\<bar>piece\<bar> \<le> 8"
    and pidx: "arr2 (pieceSq b) (pieceColor piece) \<bar>piece\<bar> = fr"
    and cidx: "cap \<noteq> 0 \<Longrightarrow> arr2 (pieceSq b) (pieceColor cap) \<bar>cap\<bar> = to"
    by (auto simp add: movable_def Let_def d NUM_SQ_def)
  from sh have len: "length (squares b) = 63" by (simp add: shapeOk_def)
  have sq1: "squares ?b = (squares b)[nat to := piece, nat fr := 0]"
    by (simp add: movedBoard_sel d)
  have colv: "pieceColor x = LIGHT \<or> pieceColor x = DARK" for x
    by (simp add: pieceColor_def)
  have ps1: "1 \<le> r \<Longrightarrow> r \<le> 8 \<Longrightarrow> arr2 (pieceSq ?b) (pieceColor x) r =
     (if pieceColor x = pieceColor piece \<and> r = \<bar>piece\<bar> then to
      else if cap \<noteq> 0 \<and> pieceColor x = pieceColor cap \<and> r = \<bar>cap\<bar> then - 1
      else arr2 (pieceSq b) (pieceColor x) r)" for x r
    using pieceSq_movedBoard [OF sh mv colv [of x], of r Z] by (simp add: d)
  show "1 \<le> \<bar>squares ?b ! nat s\<bar> \<and> \<bar>squares ?b ! nat s\<bar> \<le> 8
        \<and> arr2 (pieceSq ?b) (pieceColor (squares ?b ! nat s)) \<bar>squares ?b ! nat s\<bar> = s"
  proof (cases "s = fr")
    case True
    with s rng len show ?thesis by (simp add: sq1)
  next
    case nf: False
    show ?thesis
    proof (cases "s = to")
      case True
      then have "squares ?b ! nat s = piece" using rng len by (simp add: sq1)
      then show ?thesis using pr ps1 [of "\<bar>piece\<bar>" piece] True by simp
    next
      case nt: False
      from nf nt s rng have "nat s \<noteq> nat fr" "nat s \<noteq> nat to" by auto
      then have same: "squares ?b ! nat s = squares b ! nat s"
        by (simp add: sq1)
      define p where "p = squares b ! nat s"
      from s same have p0': "p \<noteq> 0" by (simp add: p_def)
      from bo s p0' have old: "1 \<le> \<bar>p\<bar>" "\<bar>p\<bar> \<le> 8" "arr2 (pieceSq b) (pieceColor p) \<bar>p\<bar> = s"
        by (simp_all add: brdOk_def p_def)
      have "\<not> (pieceColor p = pieceColor piece \<and> \<bar>p\<bar> = \<bar>piece\<bar>)"
        using old(3) pidx nf by auto
      moreover have "\<not> (cap \<noteq> 0 \<and> pieceColor p = pieceColor cap \<and> \<bar>p\<bar> = \<bar>cap\<bar>)"
        using old(3) cidx nt by auto
      ultimately have "arr2 (pieceSq ?b) (pieceColor p) \<bar>p\<bar> = s"
        using ps1 [OF old(1,2), of p] old(3) by (auto split: if_splits)
      with old same show ?thesis by (simp add: p_def)
    qed
  qed
qed

lemma fold_append_filter:
  assumes "\<And>x acc. f x acc = (if P x then acc @ [g x] else acc)"
  shows "fold f xs acc = acc @ map g (filter P xs)"
  by (induction xs arbitrary: acc) (simp_all add: assms)

lemma addNormalMoves_step_eq:
  "addNormalMoves_step b sq rank color d moves =
     (if normalOk b sq rank color d then moves @ [encodeMove sq (sq + d)] else moves)"
  by (auto simp add: addNormalMoves_step_def normalOk_def landingOk_def Let_def)

lemma addNormalMoves_eq:
  "addNormalMoves b sq rank color moves =
     moves @ map (\<lambda>d. encodeMove sq (sq + d)) (filter (normalOk b sq rank color) DIRS)"
  unfolding addNormalMoves_def
  by (rule fold_append_filter) (rule addNormalMoves_step_eq)

lemma jump_add_eq:
  "jump_add b sq rank color j moves =
     (if jumpOk b sq rank color j then moves @ [encodeMove sq (fst j)] else moves)"
  by (auto simp add: jump_add_def jumpOk_def landingOk_def Let_def)

lemma addJumpMoves_eq:
  "addJumpMoves b sq rank color moves =
     moves @ map (\<lambda>j. encodeMove sq (fst j)) (filter (jumpOk b sq rank color) (jumpsOf sq))"
  unfolding addJumpMoves_jumpsOf
  by (rule fold_append_filter) (rule jump_add_eq)

lemma generateMoves_step_eq:
  "generateMoves_step b color rk moves = moves @ pieceMoves b color rk"
  by (simp add: generateMoves_step_def pieceMoves_def Let_def addNormalMoves_eq addJumpMoves_eq)

lemma fold_append_concat:
  assumes "\<And>x acc. f x acc = acc @ g x"
  shows "fold f xs acc = acc @ concat (map g xs)"
  by (induction xs arbitrary: acc) (simp_all add: assms)

lemma generateMoves_eq:
  "generateMoves b = concat (map (pieceMoves b (sideToMove b)) [1..8])"
  unfolding generateMoves_def
  using fold_append_concat [of "generateMoves_step b (sideToMove b)" "pieceMoves b (sideToMove b)" "[1..8]" "[]"]
  by (simp add: generateMoves_step_eq del: upto.simps)

lemma jumps_all:
  "list_all (\<lambda>(sq, js). list_all (\<lambda>j. 0 \<le> fst j \<and> fst j < 63 \<and> fst j \<noteq> sq
        \<and> \<not> isWater ! nat (fst j) \<and> terrain ! nat (fst j) = TERRAIN_LAND
        \<and> list_all (\<lambda>w. 0 \<le> w \<and> w < 63 \<and> isWater ! nat w) (snd j)) js)
     (zip [0..62] (map jumpsOf [0..62]))"
  unfolding jumpsOf_table
  by (simp add: upto_rec1 isWater_eq terrain_eq TERRAIN_LAND_def)

lemma zip_map_self: "zip xs (map f xs) = map (\<lambda>x. (x, f x)) xs"
  by (induction xs) simp_all

lemma jumpsOf_facts:
  assumes "0 \<le> sq" "sq < 63" "j \<in> set (jumpsOf sq)"
  shows "0 \<le> fst j" "fst j < 63" "fst j \<noteq> sq" "\<not> isWater ! nat (fst j)"
    "terrain ! nat (fst j) = TERRAIN_LAND"
    "\<forall>w \<in> set (snd j). 0 \<le> w \<and> w < 63 \<and> isWater ! nat w"
proof -
  have "sq \<in> set [0..62]" using assms by simp
  with jumps_all assms(3)
  have "0 \<le> fst j \<and> fst j < 63 \<and> fst j \<noteq> sq \<and> \<not> isWater ! nat (fst j)
        \<and> terrain ! nat (fst j) = TERRAIN_LAND
        \<and> list_all (\<lambda>w. 0 \<le> w \<and> w < 63 \<and> isWater ! nat w) (snd j)"
    unfolding zip_map_self list_all_iff by (auto simp del: upto.simps)
  then show "0 \<le> fst j" "fst j < 63" "fst j \<noteq> sq" "\<not> isWater ! nat (fst j)"
    "terrain ! nat (fst j) = TERRAIN_LAND"
    "\<forall>w \<in> set (snd j). 0 \<le> w \<and> w < 63 \<and> isWater ! nat w"
    by (simp_all add: list_all_iff)
qed

lemma canStep_range:
  assumes "canStep sq d" "d \<in> set DIRS"
  shows "0 \<le> sq + d" "sq + d < 63" "sq + d \<noteq> sq"
  using assms by (auto simp add: canStep_def Let_def consts_defs split: if_splits)

lemma pieceMoves_target:
  assumes "m \<in> set (pieceMoves b color rk)"
  shows "0 \<le> arr2 (pieceSq b) color rk
       \<and> (\<exists>to. m = encodeMove (arr2 (pieceSq b) color rk) to
              \<and> (arr2 (pieceSq b) color rk < 63 \<longrightarrow> legalTarget b color (arr2 (pieceSq b) color rk) to))"
proof -
  define sq where "sq = arr2 (pieceSq b) color rk"
  from assms have nonneg: "0 \<le> sq"
    by (auto simp add: pieceMoves_def Let_def sq_def split: if_splits)
  from assms nonneg consider
      (step) d where "d \<in> set DIRS" "normalOk b sq rk color d" "m = encodeMove sq (sq + d)"
    | (jump) j where "j \<in> set (jumpsOf sq)" "jumpOk b sq rk color j" "m = encodeMove sq (fst j)"
    by (auto simp add: pieceMoves_def Let_def sq_def split: if_splits)
  then have "\<exists>to. m = encodeMove sq to \<and> (sq < 63 \<longrightarrow> legalTarget b color sq to)"
  proof cases
    case step
    then show ?thesis
      using canStep_range [of sq d]
      by (auto simp add: normalOk_def landingOk_def legalTarget_def)
  next
    case jump
    then show ?thesis
      using jumpsOf_facts [OF nonneg _ jump(1)]
      by (auto simp add: jumpOk_def landingOk_def legalTarget_def)
  qed
  with nonneg show ?thesis by (simp add: sq_def)
qed

lemma idxOkD:
  assumes "idxOk b" "c = LIGHT \<or> c = DARK" "1 \<le> r" "r \<le> 8" "0 \<le> arr2 (pieceSq b) c r"
  shows "arr2 (pieceSq b) c r < 63" "squares b ! nat (arr2 (pieceSq b) c r) = signedPiece c r"
  using assms(1) [unfolded idxOk_def, rule_format, of c r] assms(2-5)
  by (auto simp add: NUM_SQ_def)

lemma brdOkD:
  assumes "brdOk b" "0 \<le> s" "s < 63" "squares b ! nat s \<noteq> 0"
  shows "1 \<le> \<bar>squares b ! nat s\<bar>" "\<bar>squares b ! nat s\<bar> \<le> 8"
    "arr2 (pieceSq b) (pieceColor (squares b ! nat s)) \<bar>squares b ! nat s\<bar> = s"
  using assms(1) [unfolded brdOk_def, rule_format, of s] assms(2-4)
  by (auto simp add: NUM_SQ_def)

lemma legal_movable:
  assumes io: "idxOk b" and bo: "brdOk b"
    and side: "sideToMove b = LIGHT \<or> sideToMove b = DARK"
    and m: "m \<in> set (generateMoves b)"
  shows "movable b m"
proof -
  from m obtain rk where rk: "1 \<le> rk" "rk \<le> 8" and pm: "m \<in> set (pieceMoves b (sideToMove b) rk)"
    by (auto simp add: generateMoves_eq simp del: upto.simps)
  define sq where "sq = arr2 (pieceSq b) (sideToMove b) rk"
  from pieceMoves_target [OF pm] obtain to where
    sq0: "0 \<le> sq" and enc: "m = encodeMove sq to"
    and tgt: "sq < 63 \<Longrightarrow> legalTarget b (sideToMove b) sq to"
    by (auto simp add: sq_def)
  from idxOkD [OF io side rk] sq0
  have sq63: "sq < 63" and pc: "squares b ! nat sq = signedPiece (sideToMove b) rk"
    by (simp_all add: sq_def)
  from tgt [OF sq63] have to: "0 \<le> to" "to < 63" "to \<noteq> sq"
    and free: "squares b ! nat to = 0 \<or> pieceColor (squares b ! nat to) \<noteq> sideToMove b"
    by (simp_all add: legalTarget_def)
  have dec: "moveFrom m = sq" "moveTo m = to"
    using sq0 sq63 to by (simp_all add: enc moveFrom_encodeMove moveTo_encodeMove)
  have sp: "pieceColor (signedPiece (sideToMove b) rk) = sideToMove b"
      "\<bar>signedPiece (sideToMove b) rk\<bar> = rk"
    using pieceColor_signedPiece [OF side rk(1)] by simp_all
  have cap: "squares b ! nat to \<noteq> 0 \<Longrightarrow>
       1 \<le> \<bar>squares b ! nat to\<bar> \<and> \<bar>squares b ! nat to\<bar> \<le> 8
       \<and> arr2 (pieceSq b) (pieceColor (squares b ! nat to)) \<bar>squares b ! nat to\<bar> = to"
    using brdOkD [OF bo to(1,2)] by simp
  show ?thesis
    unfolding movable_def Let_def dec
    using sq63 to pc sp rk free cap by (auto simp add: NUM_SQ_def sq_def)
qed

lemma hash_computeHash_cong:
  "squares b = squares b' \<Longrightarrow> sideToMove b = sideToMove b' \<Longrightarrow>
   hash (computeHash Z b) = hash (computeHash Z b')"
  by (simp add: hash_computeHash)

lemma wf_movedBoard:
  assumes "wf Z b" and "movable b m"
  shows "wf Z (movedBoard Z b m)"
proof -
  from assms(1) have sh: "shapeOk b" and io: "idxOk b" and bo: "brdOk b"
    and side: "sideToMove b = LIGHT \<or> sideToMove b = DARK"
    and h: "hash b = hash (computeHash Z b)" and pl: "0 \<le> ply b" "histLen b = ply b + 1"
    by (simp_all add: wf_def)
  have "sideToMove (movedBoard Z b m) = LIGHT \<or> sideToMove (movedBoard Z b m) = DARK"
    using side by (auto simp add: movedBoard_sel LIGHT_def DARK_def)
  moreover have "posHistory (movedBoard Z b m) (nat (histLen (movedBoard Z b m) - 1))
                 = hash (movedBoard Z b m)"
    by (simp add: movedBoard_sel)
  ultimately show ?thesis
    unfolding wf_def
    using shapeOk_movedBoard [OF sh] idxOk_movedBoard [OF sh assms(2) io]
      brdOk_movedBoard [OF sh assms(2) bo] hash_movedBoard [OF sh assms(2) side h] pl
    by (simp add: movedBoard_sel)
qed

lemma wf_makeNullMove:
  assumes "wf Z b" and "makeNullMove Z b = Inr b'"
  shows "wf Z b'"
proof -
  from assms(2) have b': "b' = b\<lparr>sideToMove := 1 - sideToMove b, hash := hash b XOR zobristSide Z,
                  ply := ply b + 1,
                  undoStack := (undoStack b)(nat (ply b) :=
                    \<lparr>captured = 0, u_hash = hash b, u_halfmove = halfmove b, u_move = MOVE_NONE\<rparr>),
                  posHistory := (posHistory b)(nat (histLen b) := hash b XOR zobristSide Z),
                  histLen := histLen b + 1\<rparr>"
    by (simp add: makeNullMove_eq split: if_splits)
  from assms(1) have side: "sideToMove b = LIGHT \<or> sideToMove b = DARK"
    and h: "hash b = hash (computeHash Z b)"
    by (simp_all add: wf_def)
  have "hash b' = hash (computeHash Z b')"
    using side h by (auto simp add: b' hash_computeHash Let_def LIGHT_def DARK_def xor.assoc)
  then show ?thesis
    using assms(1) side
    by (auto simp add: wf_def b' shapeOk_def idxOk_def brdOk_def LIGHT_def DARK_def)
qed

lemma rank_cases: "1 \<le> r \<Longrightarrow> r \<le> 8 \<Longrightarrow> r = 1 \<or> r = 2 \<or> r = 3 \<or> r = 4 \<or> r = 5 \<or> r = 6 \<or> r = 7 \<or> r = (8::int)"
  by arith

lemma idxOk_init: "idxOk (init Z b)"
  unfolding idxOk_def
proof (intro allI impI)
  fix c r :: int
  assume "(c = LIGHT \<or> c = DARK) \<and> 1 \<le> r \<and> r \<le> 8"
  then have c: "c = 0 \<or> c = 1" and r: "r = 1 \<or> r = 2 \<or> r = 3 \<or> r = 4 \<or> r = 5 \<or> r = 6 \<or> r = 7 \<or> r = 8"
    using rank_cases [of r] by (auto simp add: LIGHT_def DARK_def)
  from c r show "arr2 (pieceSq (init Z b)) c r = - 1 \<or>
         0 \<le> arr2 (pieceSq (init Z b)) c r \<and> arr2 (pieceSq (init Z b)) c r < NUM_SQ \<and>
         squares (init Z b) ! nat (arr2 (pieceSq (init Z b)) c r) = signedPiece c r"
    unfolding pieceSq_init squares_init
    by (elim disjE) (simp_all add: arr2_def signedPiece_def LIGHT_def NUM_SQ_def)
qed

lemma brdOk_init: "brdOk (init Z b)"
proof -
  have "list_all (\<lambda>s. squares (init Z b) ! nat s \<noteq> 0 \<longrightarrow>
        1 \<le> \<bar>squares (init Z b) ! nat s\<bar> \<and> \<bar>squares (init Z b) ! nat s\<bar> \<le> 8
        \<and> arr2 (pieceSq (init Z b)) (pieceColor (squares (init Z b) ! nat s))
             \<bar>squares (init Z b) ! nat s\<bar> = s) [0..62]"
    unfolding pieceSq_init squares_init
    by (simp add: upto_rec1 arr2_def pieceColor_def LIGHT_def DARK_def)
  then show ?thesis
    unfolding brdOk_def using all_squares_list [symmetric] by (simp add: list_all_iff NUM_SQ_def del: upto.simps)
qed

lemma wf_init:
  assumes "length (pieceCount b) = 2"
  shows "wf Z (init Z b)"
proof -
  have sh: "shapeOk (init Z b)"
    using assms by (simp add: shapeOk_def squares_init pieceSq_init pieceCount_init)
  have h: "hash (init Z b) = hash (computeHash Z (init Z b))"
    by (simp add: init_def Let_def hash_computeHash)
  have rest: "sideToMove (init Z b) = LIGHT" "ply (init Z b) = 0" "histLen (init Z b) = 1"
    "posHistory (init Z b) 0 = hash (init Z b)"
    by (simp_all add: sideToMove_init init_fields LIGHT_def) (simp add: init_def Let_def)
  show ?thesis
    unfolding wf_def using sh idxOk_init brdOk_init h rest by simp
qed

lemma reachable_wf: "reachable Z b \<Longrightarrow> wf Z b"
proof (induction rule: reachable.induct)
  case (reach_init b)
  then show ?case by (rule wf_init)
next
  case (reach_move b m b')
  from reach_move.IH have mv: "movable b m"
    using legal_movable [OF _ _ _ reach_move.hyps(2)] by (simp add: wf_def)
  from reach_move.hyps(3) have "b' = movedBoard Z b m"
    by (simp add: makeMove_eq split: if_splits)
  with wf_movedBoard [OF reach_move.IH mv] show ?case by simp
next
  case (reach_null b b')
  then show ?case using wf_makeNullMove by blast
qed

lemma movable_ok:
  assumes "movable b m" "0 \<le> ply b" "histLen b = ply b + 1" "histLen b < MAX_GAME_LEN"
  shows "makeMove_ok b m"
  using assms by (auto simp add: movable_def makeMove_ok_def Let_def NUM_PIECE_TYPES_def)

lemma unmake_ok:
  assumes sh: "shapeOk b" and mv: "movable b m" and pl: "0 \<le> ply b" "ply b < MAX_GAME_LEN"
  shows "unmakeMove_ok (movedBoard Z b m)"
proof -
  from mv have rng: "moveFrom m < 63" "moveTo m < 63" "moveFrom m \<noteq> moveTo m"
    and pr: "\<bar>squares b ! nat (moveFrom m)\<bar> \<le> 8" and cr: "\<bar>squares b ! nat (moveTo m)\<bar> \<le> 8"
    by (auto simp add: movable_def Let_def NUM_SQ_def)
  from sh have len: "length (squares b) = 63" by (simp add: shapeOk_def)
  have nn: "nat (moveFrom m) \<noteq> nat (moveTo m)" "nat (moveTo m) < 63"
    using rng by (simp_all add: eq_nat_nat_iff)
  have at: "squares (movedBoard Z b m) ! nat (moveTo m) = squares b ! nat (moveFrom m)"
    using nn len by (simp add: movedBoard_sel)
  show ?thesis
    unfolding unmakeMove_ok_def Let_def
    using rng pr cr pl at
    by (simp add: movedBoard_sel NUM_SQ_def NUM_PIECE_TYPES_def)
qed

lemma make_unmake_wf:
  assumes w: "wf Z P" and mv: "movable P m" and cap: "histLen P < MAX_GAME_LEN"
  shows "makeMove Z P m = Inr (movedBoard Z P m)"
    and "unmakeMove (movedBoard Z P m)
         = Inr (P\<lparr>undoStack := undoStack (movedBoard Z P m),
                  posHistory := posHistory (movedBoard Z P m)\<rparr>)"
proof -
  from w have sh: "shapeOk P" and pl: "0 \<le> ply P" "histLen P = ply P + 1"
    by (simp_all add: wf_def)
  from movable_ok [OF mv pl cap] show "makeMove Z P m = Inr (movedBoard Z P m)"
    by (simp add: makeMove_eq)
  from pl cap have "ply P < MAX_GAME_LEN" by simp
  from unmake_ok [OF sh mv pl(1) this] roundtrip_board [OF sh mv]
  show "unmakeMove (movedBoard Z P m)
         = Inr (P\<lparr>undoStack := undoStack (movedBoard Z P m),
                  posHistory := posHistory (movedBoard Z P m)\<rparr>)"
    by (simp add: unmakeMove_eq)
qed

lemma null_unnull_wf:
  assumes w: "wf Z P" and cap: "histLen P < MAX_GAME_LEN"
  shows "\<exists>P1. makeNullMove Z P = Inr P1
          \<and> hash P1 = hash (computeHash Z P1)
          \<and> unmakeNullMove P1 = Inr (P\<lparr>undoStack := undoStack P1, posHistory := posHistory P1\<rparr>)"
proof -
  from w have pl: "0 \<le> ply P" "histLen P = ply P + 1" by (simp_all add: wf_def)
  with cap obtain P1 where p1: "makeNullMove Z P = Inr P1"
    by (simp add: makeNullMove_eq)
  from wf_makeNullMove [OF w p1] have "hash P1 = hash (computeHash Z P1)" by (simp add: wf_def)
  moreover have "unmakeNullMove P1 = Inr (P\<lparr>undoStack := undoStack P1, posHistory := posHistory P1\<rparr>)"
    using p1 pl cap by (auto simp add: makeNullMove_eq unmakeNullMove_eq split: if_splits)
  ultimately show ?thesis using p1 by blast
qed

lemma generateMoves_init_list:
  "generateMoves (init Z b) = map (\<lambda>(f, t). encodeMove f t)
     [(20, 27), (20, 13), (20, 19), (8, 15), (8, 1), (8, 9), (8, 7), (12, 19),
      (12, 5), (12, 13), (12, 11), (16, 9), (16, 17), (16, 15), (18, 11),
      (18, 19), (18, 17), (0, 7), (0, 1), (6, 13), (6, 5), (14, 21), (14, 7),
      (14, 15)]"
  by (simp add: movegen_defs squares_init pieceSq_init sideToMove_init consts_defs
      jumpsOf_0 jumpsOf_6)

lemma startPos_facts:
  "reachable testKeys startPos" "histLen startPos < MAX_GAME_LEN"
  "encodeMove 14 21 \<in> set (generateMoves startPos)"
  unfolding startPos_def
  by (simp_all add: reach_init zeroBoard_def init_fields MAX_GAME_LEN_def generateMoves_init_list)

lemma finite_hitsBelow [simp]: "finite (hitsBelow ph h i)"
proof -
  have "hitsBelow ph h i \<subseteq> {0..i}" by (auto simp add: hitsBelow_def)
  then show ?thesis by (rule finite_subset) simp
qed

lemma hitsBelow_neg: "i < 0 \<Longrightarrow> hitsBelow ph h i = {}"
  by (auto simp add: hitsBelow_def)

lemma hitsBelow_step:
  assumes "0 \<le> i"
  shows "hitsBelow ph h i = (if ph (nat i) = h then insert i (hitsBelow ph h (i - 2))
                            else hitsBelow ph h (i - 2))"
proof -
  have key: "(j \<le> i \<and> even (i - j)) = (j = i \<or> (j \<le> i - 2 \<and> even (i - 2 - j)))" for j :: int
    by presburger
  have "hitsBelow ph h i = {j. 0 \<le> j \<and> (j = i \<or> (j \<le> i - 2 \<and> even (i - 2 - j))) \<and> ph (nat j) = h}"
    unfolding hitsBelow_def using key by blast
  also have "\<dots> = {j. j = i \<and> ph (nat i) = h} \<union> hitsBelow ph h (i - 2)"
    unfolding hitsBelow_def using assms by blast
  finally show ?thesis by auto
qed

lemma card_hitsBelow_step:
  assumes "0 \<le> i"
  shows "card (hitsBelow ph h i) = (if ph (nat i) = h then Suc (card (hitsBelow ph h (i - 2)))
                            else card (hitsBelow ph h (i - 2)))"
proof -
  have "i \<notin> hitsBelow ph h (i - 2)" by (simp add: hitsBelow_def)
  then show ?thesis using hitsBelow_step [OF assms, of ph h] by simp
qed

lemma isRepetition_loop_card:
  "cnt < 2 \<Longrightarrow> isRepetition_loop ph h i cnt = (2 \<le> cnt + int (card (hitsBelow ph h i)))"
proof (induction ph h i cnt rule: isRepetition_loop.induct)
  case (1 ph h i cnt)
  show ?case
  proof (cases "0 \<le> i")
    case False
    then show ?thesis using "1.prems"
      by (subst isRepetition_loop.simps) (simp add: hitsBelow_neg)
  next
    case True
    show ?thesis
    proof (cases "ph (nat i) = h")
      case hit: True
      show ?thesis
      proof (cases "2 \<le> cnt + 1")
        case True
        then show ?thesis using \<open>0 \<le> i\<close> hit
          by (subst isRepetition_loop.simps) (simp add: card_hitsBelow_step)
      next
        case False
        with "1.IH"(1) [OF \<open>0 \<le> i\<close> hit] "1.prems"
        have "isRepetition_loop ph h (i - 2) (cnt + 1)
              = (2 \<le> cnt + 1 + int (card (hitsBelow ph h (i - 2))))" by simp
        then show ?thesis using \<open>0 \<le> i\<close> hit False
          by (subst isRepetition_loop.simps) (simp add: card_hitsBelow_step)
      qed
    next
      case miss: False
      with "1.IH"(2) [OF \<open>0 \<le> i\<close> miss] "1.prems"
      have "isRepetition_loop ph h (i - 2) cnt
              = (2 \<le> cnt + int (card (hitsBelow ph h (i - 2))))" by simp
      then show ?thesis using \<open>0 \<le> i\<close> miss
        by (subst isRepetition_loop.simps) (simp add: card_hitsBelow_step)
    qed
  qed
qed

lemma priorSame_hitsBelow: "priorSame b = hitsBelow (posHistory b) (hash b) (histLen b - 3)"
proof -
  have key: "(j < n - 1 \<and> even (n - 1 - j)) = (j \<le> n - 3 \<and> even (n - 3 - j))" for j n :: int
    by presburger
  show ?thesis unfolding priorSame_def hitsBelow_def using key by blast
qed

lemma card_hitsBelow_small: "i \<le> 1 \<Longrightarrow> card (hitsBelow ph h i) \<le> 1"
proof -
  assume i: "i \<le> 1"
  have "x = i" if "0 \<le> x" "x \<le> i" "even (i - x)" for x :: int
    using that i by presburger
  then have "hitsBelow ph h i \<subseteq> {i}"
    by (auto simp add: hitsBelow_def)
  then have "card (hitsBelow ph h i) \<le> card {i}" by (intro card_mono) simp_all
  then show ?thesis by simp
qed

lemma isRepetition_card: "isRepetition b = (2 \<le> card (priorSame b))"
proof (cases "histLen b < 5")
  case True
  then have "card (hitsBelow (posHistory b) (hash b) (histLen b - 3)) \<le> 1"
    by (intro card_hitsBelow_small) simp
  with True show ?thesis by (simp add: isRepetition_def priorSame_hitsBelow)
next
  case False
  then show ?thesis
    using isRepetition_loop_card [of 0 "posHistory b" "hash b" "histLen b - 3"]
    by (simp add: isRepetition_def priorSame_hitsBelow)
qed

lemma movedBoard_pieceSq:
  "pieceSq (movedBoard Z b m) =
     arr2_upd (if squares b ! nat (moveTo m) \<noteq> 0
               then arr2_upd (pieceSq b) (pieceColor (squares b ! nat (moveTo m)))
                      \<bar>squares b ! nat (moveTo m)\<bar> (- 1)
               else pieceSq b)
       (pieceColor (squares b ! nat (moveFrom m))) \<bar>squares b ! nat (moveFrom m)\<bar> (moveTo m)"
  by (simp add: movedBoard_def Let_def)

lemma movedBoard_posHistory:
  "posHistory (movedBoard Z b m) = (posHistory b)(nat (histLen b) := hash (movedBoard Z b m))"
  by (simp add: movedBoard_def Let_def)

lemma cycleMoves_nth:
  "cycleMoves ! 0 = encodeMove 20 27" "cycleMoves ! Suc 0 = encodeMove 42 35"
  "cycleMoves ! 2 = encodeMove 27 20" "cycleMoves ! 3 = encodeMove 35 42"
  by (simp_all add: cycleMoves_def numeral_2_eq_2 numeral_3_eq_3)

lemma decode_cycle:
  "moveFrom (encodeMove 20 27) = 20" "moveTo (encodeMove 20 27) = 27"
  "moveFrom (encodeMove 42 35) = 42" "moveTo (encodeMove 42 35) = 35"
  "moveFrom (encodeMove 27 20) = 27" "moveTo (encodeMove 27 20) = 20"
  "moveFrom (encodeMove 35 42) = 35" "moveTo (encodeMove 35 42) = 42"
  by (simp_all add: moveFrom_encodeMove moveTo_encodeMove)

lemma jumpsOf_none: "jumpsOf 0 = []" "jumpsOf 6 = []" "jumpsOf 62 = []" "jumpsOf 56 = []"
  by (simp_all add: jumpsOf_nth jumpsOf_table del: upto.simps)

lemma cyc_step0:
  assumes "squares B = cycSquares 0" "pieceSq B = cycPieceSq 0" "sideToMove B = 0"
  shows "encodeMove 20 27 \<in> set (generateMoves B)"
    and "squares (movedBoard Z B (encodeMove 20 27)) = cycSquares 1"
    and "pieceSq (movedBoard Z B (encodeMove 20 27)) = cycPieceSq 1"
  using assms
  by (simp_all add: movegen_defs consts_defs jumpsOf_none cycSquares_def cycPieceSq_def
      movedBoard_sel movedBoard_pieceSq decode_cycle arr2_upd_def list_eval)

lemma cyc_step1:
  assumes "squares B = cycSquares 1" "pieceSq B = cycPieceSq 1" "sideToMove B = 1"
  shows "encodeMove 42 35 \<in> set (generateMoves B)"
    and "squares (movedBoard Z B (encodeMove 42 35)) = cycSquares 2"
    and "pieceSq (movedBoard Z B (encodeMove 42 35)) = cycPieceSq 2"
  using assms
  by (simp_all add: movegen_defs consts_defs jumpsOf_none cycSquares_def cycPieceSq_def
      movedBoard_sel movedBoard_pieceSq decode_cycle arr2_upd_def list_eval)

lemma cyc_step2:
  assumes "squares B = cycSquares 2" "pieceSq B = cycPieceSq 2" "sideToMove B = 0"
  shows "encodeMove 27 20 \<in> set (generateMoves B)"
    and "squares (movedBoard Z B (encodeMove 27 20)) = cycSquares 3"
    and "pieceSq (movedBoard Z B (encodeMove 27 20)) = cycPieceSq 3"
  using assms
  by (simp_all add: movegen_defs consts_defs jumpsOf_none cycSquares_def cycPieceSq_def
      movedBoard_sel movedBoard_pieceSq decode_cycle arr2_upd_def list_eval)

lemma cyc_step3:
  assumes "squares B = cycSquares 3" "pieceSq B = cycPieceSq 3" "sideToMove B = 1"
  shows "encodeMove 35 42 \<in> set (generateMoves B)"
    and "squares (movedBoard Z B (encodeMove 35 42)) = cycSquares 0"
    and "pieceSq (movedBoard Z B (encodeMove 35 42)) = cycPieceSq 0"
  using assms
  by (simp_all add: movegen_defs consts_defs jumpsOf_none cycSquares_def cycPieceSq_def
      movedBoard_sel movedBoard_pieceSq decode_cycle arr2_upd_def list_eval)

lemma mod4_cases: "(k::nat) mod 4 = 0 \<or> k mod 4 = 1 \<or> k mod 4 = 2 \<or> k mod 4 = 3"
  by arith

lemma cyc_step_fields:
  assumes sq: "squares B = cycSquares (k mod 4)" and ps: "pieceSq B = cycPieceSq (k mod 4)"
    and sd: "sideToMove B = int (k mod 2)"
  shows "cycleMoves ! (k mod 4) \<in> set (generateMoves B)
      \<and> squares (movedBoard Z B (cycleMoves ! (k mod 4))) = cycSquares (Suc k mod 4)
      \<and> pieceSq (movedBoard Z B (cycleMoves ! (k mod 4))) = cycPieceSq (Suc k mod 4)"
proof -
  consider (c0) "k mod 4 = 0" | (c1) "k mod 4 = 1" | (c2) "k mod 4 = 2" | (c3) "k mod 4 = 3"
    using mod4_cases [of k] by auto
  then show ?thesis
  proof cases
    case c0
    then have e: "k mod 2 = 0" "Suc k mod 4 = 1" by presburger+
    have a: "squares B = cycSquares 0" "pieceSq B = cycPieceSq 0" "sideToMove B = 0"
      using sq ps sd c0 e by simp_all
    show ?thesis unfolding c0 e using cyc_step0(1) [OF a] cyc_step0(2,3) [OF a, of Z] by (simp add: cycleMoves_nth)
  next
    case c1
    then have e: "k mod 2 = 1" "Suc k mod 4 = 2" by presburger+
    have a: "squares B = cycSquares 1" "pieceSq B = cycPieceSq 1" "sideToMove B = 1"
      using sq ps sd c1 e by simp_all
    show ?thesis unfolding c1 e using cyc_step1(1) [OF a] cyc_step1(2,3) [OF a, of Z] by (simp add: cycleMoves_nth)
  next
    case c2
    then have e: "k mod 2 = 0" "Suc k mod 4 = 3" by presburger+
    have a: "squares B = cycSquares 2" "pieceSq B = cycPieceSq 2" "sideToMove B = 0"
      using sq ps sd c2 e by simp_all
    show ?thesis unfolding c2 e using cyc_step2(1) [OF a] cyc_step2(2,3) [OF a, of Z] by (simp add: cycleMoves_nth)
  next
    case c3
    then have e: "k mod 2 = 1" "Suc k mod 4 = 0" by presburger+
    have a: "squares B = cycSquares 3" "pieceSq B = cycPieceSq 3" "sideToMove B = 1"
      using sq ps sd c3 e by simp_all
    show ?thesis unfolding c3 e using cyc_step3(1) [OF a] cyc_step3(2,3) [OF a, of Z] by (simp add: cycleMoves_nth)
  qed
qed

lemma wf_hash_cyc:
  assumes "wf Z B" "squares B = cycSquares j" "sideToMove B = int (j mod 2)"
  shows "hash B = cycHash Z j"
proof -
  from assms(1) have "hash B = hash (computeHash Z B)" by (simp add: wf_def)
  also have "\<dots> = cycHash Z j"
    unfolding cycHash_def using assms(2,3) by (intro hash_computeHash_cong) simp_all
  finally show ?thesis .
qed

lemma cycState_step:
  assumes st: "cycState Z k B" and cap: "int k + 1 < MAX_GAME_LEN"
  shows "cycleMoves ! (k mod 4) \<in> set (generateMoves B)"
    and "makeMove Z B (cycleMoves ! (k mod 4)) = Inr (movedBoard Z B (cycleMoves ! (k mod 4)))"
    and "cycState Z (Suc k) (movedBoard Z B (cycleMoves ! (k mod 4)))"
proof -
  define m where "m = cycleMoves ! (k mod 4)"
  define B' where "B' = movedBoard Z B m"
  from st have re: "reachable Z B" and sq: "squares B = cycSquares (k mod 4)"
    and ps: "pieceSq B = cycPieceSq (k mod 4)" and sd: "sideToMove B = int (k mod 2)"
    and hl: "histLen B = int k + 1" and ph: "\<And>i. i \<le> k \<Longrightarrow> posHistory B i = cycHash Z (i mod 4)"
    by (simp_all add: cycState_def)
  from reachable_wf [OF re] have w: "wf Z B" .
  from cyc_step_fields [OF sq ps sd, of Z]
  have legal: "m \<in> set (generateMoves B)"
    and sq': "squares B' = cycSquares (Suc k mod 4)"
    and ps': "pieceSq B' = cycPieceSq (Suc k mod 4)" by (simp_all add: m_def B'_def)
  from w have io: "idxOk B" and bo: "brdOk B" and sv: "sideToMove B = LIGHT \<or> sideToMove B = DARK"
    by (simp_all add: wf_def)
  have mv: "movable B m" using io bo sv legal by (rule legal_movable)
  from cap hl have cap': "histLen B < MAX_GAME_LEN" by simp
  have mk: "makeMove Z B m = Inr B'" unfolding B'_def using w mv cap' by (rule make_unmake_wf(1))
  have re': "reachable Z B'" using re legal mk by (rule reach_move)
  have "1 - int (k mod 2) = int (Suc k mod 2)"
    by (cases "even k") (simp_all add: mod_Suc)
  then have sd': "sideToMove B' = int (Suc k mod 2)"
    unfolding B'_def movedBoard_sel sd .
  have hl': "histLen B' = int (Suc k) + 1"
    unfolding B'_def movedBoard_sel hl by simp
  have h': "hash B' = cycHash Z (Suc k mod 4)"
  proof -
    have "Suc k mod 2 = (Suc k mod 4) mod 2" by (simp add: mod_mod_cancel)
    with sd' have "sideToMove B' = int ((Suc k mod 4) mod 2)" by simp
    from wf_hash_cyc [OF reachable_wf [OF re'] sq' this] show ?thesis .
  qed
  have top: "nat (histLen B) = Suc k" using hl by simp
  have ph': "posHistory B' i = cycHash Z (i mod 4)" if "i \<le> Suc k" for i
  proof (cases "i = Suc k")
    case True
    then show ?thesis unfolding B'_def movedBoard_posHistory top using h' by (simp add: B'_def)
  next
    case False
    with that have "i \<le> k" by simp
    from ph [OF this] False show ?thesis unfolding B'_def movedBoard_posHistory top by simp
  qed
  show "cycleMoves ! (k mod 4) \<in> set (generateMoves B)" using legal by (simp add: m_def)
  show "makeMove Z B (cycleMoves ! (k mod 4)) = Inr (movedBoard Z B (cycleMoves ! (k mod 4)))"
    using mk by (simp add: m_def B'_def)
  have "cycState Z (Suc k) B'"
    unfolding cycState_def using re' sq' ps' sd' hl' ph' by blast
  then show "cycState Z (Suc k) (movedBoard Z B (cycleMoves ! (k mod 4)))"
    by (simp add: m_def B'_def)
qed

lemma playMoves_snoc:
  "playMoves Z b (ms @ [m]) =
     (case playMoves Z b ms of Inl e \<Rightarrow> Inl e | Inr b' \<Rightarrow> makeMove Z b' m)"
  by (induction ms arbitrary: b) (auto split: sum.splits)

lemma cycleRun_Suc: "cycleRun (Suc k) = cycleRun k @ [cycleMoves ! (k mod 4)]"
  by (simp add: cycleRun_def)

lemma cycState_init:
  assumes "length (pieceCount b) = 2"
  shows "cycState Z 0 (init Z b)"
proof -
  have re: "reachable Z (init Z b)" using assms by (rule reach_init)
  have sq: "squares (init Z b) = cycSquares 0" by (simp add: squares_init cycSquares_def)
  have sd: "sideToMove (init Z b) = int (0 mod 2)" by (simp add: sideToMove_init)
  from wf_hash_cyc [OF reachable_wf [OF re] sq sd] reachable_wf [OF re]
  have "posHistory (init Z b) 0 = cycHash Z 0" by (simp add: wf_def init_fields)
  then show ?thesis
    unfolding cycState_def using re sq
    by (simp add: pieceSq_init cycPieceSq_def sideToMove_init init_fields)
qed

lemma cycle_run:
  assumes "length (pieceCount b) = 2"
  shows "int k < MAX_GAME_LEN \<Longrightarrow>
         \<exists>B. playMoves Z (init Z b) (cycleRun k) = Inr B \<and> cycState Z k B"
proof (induction k)
  case 0
  then show ?case using cycState_init [OF assms] by (simp add: cycleRun_def)
next
  case (Suc k)
  then obtain B where B: "playMoves Z (init Z b) (cycleRun k) = Inr B" "cycState Z k B"
    by auto
  from Suc.prems have cap: "int k + 1 < MAX_GAME_LEN" by simp
  from cycState_step(2,3) [OF B(2) cap] B(1) show ?case
    by (simp add: cycleRun_Suc playMoves_snoc)
qed

text \<open>Counting the earlier occurrences along the cycle.\<close>

lemma cyc_same_hash:
  assumes d: "cycHash Z 0 \<noteq> cycHash Z 2" "cycHash Z 1 \<noteq> cycHash Z 3"
    and par: "even (int k - int i)"
  shows "(cycHash Z (i mod 4) = cycHash Z (k mod 4)) = (i mod 4 = k mod 4)"
proof -
  from par have p: "even i = even k" by simp
  have ci: "i mod 4 = 0 \<or> i mod 4 = 1 \<or> i mod 4 = 2 \<or> i mod 4 = 3" by (rule mod4_cases)
  have ck: "k mod 4 = 0 \<or> k mod 4 = 1 \<or> k mod 4 = 2 \<or> k mod 4 = 3" by (rule mod4_cases)
  have ei: "even i = even (i mod 4)" by (simp add: dvd_mod_iff)
  have ek: "even k = even (k mod 4)" by (simp add: dvd_mod_iff)
  from p ei ek have "even (i mod 4) = even (k mod 4)" by simp
  moreover from d have "cycHash Z 2 \<noteq> cycHash Z 0" "cycHash Z 3 \<noteq> cycHash Z 1" by auto
  ultimately show ?thesis using ci ck d by (elim disjE) simp_all
qed

lemma mod4_minus4: "4 \<le> (k::nat) \<Longrightarrow> (k - 4) mod 4 = k mod 4"
  using mod_add_self2 [of "k - 4" 4] by simp

lemma mod4_minus8: "8 \<le> (k::nat) \<Longrightarrow> (k - 8) mod 4 = k mod 4"
  using mod_mult_self1 [of "k - 8" 2 4] by simp

lemma mod4_below8:
  assumes "j < (k::nat)" "k < 8" "j mod 4 = k mod 4"
  shows "j + 4 = k"
proof -
  define a c r where "a = j div 4" and "c = k div 4" and "r = j mod 4"
  have "j = 4 * a + r" unfolding a_def r_def by simp
  moreover have "k = 4 * c + r" unfolding c_def r_def assms(3) by simp
  moreover have "r < 4" unfolding r_def by simp
  ultimately have "j = 4 * a + r" "k = 4 * c + r" "r < 4" by blast+
  note f = this
  from f assms(1,2) have "a < c" "c < 2" by auto
  then have "c = 1" "a = 0" by auto
  with f show ?thesis by simp
qed

lemma finite_priorSame [simp]: "finite (priorSame b)"
  by (simp add: priorSame_hitsBelow)

lemma cyc_priorSame:
  assumes st: "cycState Z k B"
    and d: "cycHash Z 0 \<noteq> cycHash Z 2" "cycHash Z 1 \<noteq> cycHash Z 3"
  shows "priorSame B = {i. 0 \<le> i \<and> i < int k \<and> nat i mod 4 = k mod 4}"
proof -
  from st have re: "reachable Z B" and hl: "histLen B = int k + 1"
    and ph: "\<And>i. i \<le> k \<Longrightarrow> posHistory B i = cycHash Z (i mod 4)"
    by (simp_all add: cycState_def)
  from reachable_wf [OF re] hl have "hash B = posHistory B k" by (simp add: wf_def)
  with ph [of k] have h: "hash B = cycHash Z (k mod 4)" by simp
  have "(even (int k - i) \<and> posHistory B (nat i) = hash B) = (nat i mod 4 = k mod 4)"
    if r: "0 \<le> i" "i < int k" for i
  proof -
    from r have le: "nat i \<le> k" by simp
    show ?thesis
    proof (cases "even (int k - i)")
      case True
      with r have "even (int k - int (nat i))" by simp
      from cyc_same_hash [OF d this] ph [OF le] h True show ?thesis by simp
    next
      case False
      with r have "even (nat i) \<noteq> even k" by (simp add: even_nat_iff)
      moreover have "even (nat i) = even (nat i mod 4)" "even k = even (k mod 4)"
        by (simp_all add: dvd_mod_iff)
      ultimately have "nat i mod 4 \<noteq> k mod 4" by metis
      with False show ?thesis by simp
    qed
  qed
  then show ?thesis unfolding priorSame_def hl by auto
qed

lemma cyc_isRepetition:
  assumes st: "cycState Z k B"
    and d: "cycHash Z 0 \<noteq> cycHash Z 2" "cycHash Z 1 \<noteq> cycHash Z 3"
  shows "isRepetition B = (8 \<le> k)"
proof -
  note S = cyc_priorSame [OF st d]
  show ?thesis
  proof (cases "8 \<le> k")
    case True
    then have m: "(k - 4) mod 4 = k mod 4" "(k - 8) mod 4 = k mod 4"
      by (simp_all add: mod4_minus4 mod4_minus8)
    have "int k - 4 \<in> priorSame B" "int k - 8 \<in> priorSame B"
      using True m by (simp_all add: S nat_diff_distrib')
    then have "{int k - 4, int k - 8} \<subseteq> priorSame B" by simp
    then have "card {int k - 4, int k - 8} \<le> card (priorSame B)"
      by (intro card_mono) simp_all
    then have "2 \<le> card (priorSame B)" by simp
    with True show ?thesis by (simp add: isRepetition_card)
  next
    case False
    have "i = int k - 4" if "i \<in> priorSame B" for i
    proof -
      from that have r: "0 \<le> i" "i < int k" "nat i mod 4 = k mod 4" by (simp_all add: S)
      from r(1,2) have "nat i < k" by simp
      with r(3) False have "nat i + 4 = k" by (intro mod4_below8) simp_all
      with r(1) show ?thesis by simp
    qed
    then have "priorSame B \<subseteq> {int k - 4}" by auto
    then have "card (priorSame B) \<le> card {int k - 4}" by (intro card_mono) simp_all
    with False show ?thesis by (simp add: isRepetition_card)
  qed
qed

lemma cycSquares_upd:
  "cycSquares 2 = (cycSquares 0)[20 := 0, 27 := 1, 42 := 0, 35 := - 1]"
  "cycSquares 3 = (cycSquares 1)[27 := 0, 20 := 1, 42 := 0, 35 := - 1]"
  by (simp_all add: cycSquares_def list_eval)

lemma cycSquares_at:
  "length (cycSquares j) = 63"
  "cycSquares 0 ! 20 = 1" "cycSquares 0 ! 27 = 0" "cycSquares 0 ! 42 = - 1" "cycSquares 0 ! 35 = 0"
  "cycSquares (Suc 0) ! 20 = 0" "cycSquares (Suc 0) ! 27 = 1" "cycSquares (Suc 0) ! 42 = - 1"
  "cycSquares (Suc 0) ! 35 = 0"
  by (simp_all add: cycSquares_def)

lemma xor_cancel_eq: "(x :: 64 word) = x XOR a XOR b \<Longrightarrow> a = b"
proof -
  assume "x = x XOR a XOR b"
  then have "x XOR x = x XOR (x XOR a XOR b)" by simp
  then have "a XOR b = 0" by (simp add: xor.assoc [symmetric])
  then have "(a XOR b) XOR b = 0 XOR b" by simp
  then show "a = b" by (simp add: xor.assoc)
qed

lemma hfold_upd4:
  assumes "length xs = 63" "a < 63" "b < 63" "c < 63" "d < 63"
    "a \<noteq> b" "a \<noteq> c" "a \<noteq> d" "b \<noteq> c" "b \<noteq> d" "c \<noteq> d"
  shows "fold (computeHash_step Z (xs[a := va, b := vb, c := vc, d := vd])) [0..<63] 0
       = fold (computeHash_step Z xs) [0..<63] 0
           XOR pkey Z (int a) (xs ! a) XOR pkey Z (int a) va
           XOR pkey Z (int b) (xs ! b) XOR pkey Z (int b) vb
           XOR pkey Z (int c) (xs ! c) XOR pkey Z (int c) vc
           XOR pkey Z (int d) (xs ! d) XOR pkey Z (int d) vd"
  using assms by (simp add: hfold_update xor.assoc)

lemma pkey_vals:
  "pkey Z sq 0 = 0" "pkey Z sq 1 = zobristPiece Z sq RAT LIGHT"
  "pkey Z sq (- 1) = zobristPiece Z sq RAT DARK"
  by (simp_all add: pkey_def pieceColor_def RAT_def)

lemma cycHash_2:
  "cycHash Z 2 = cycHash Z 0 XOR (zobristPiece Z 20 RAT LIGHT XOR zobristPiece Z 27 RAT LIGHT)
                 XOR (zobristPiece Z 42 RAT DARK XOR zobristPiece Z 35 RAT DARK)"
proof -
  have "fold (computeHash_step Z (cycSquares 2)) [0..<63] 0
        = fold (computeHash_step Z (cycSquares 0)) [0..<63] 0
           XOR zobristPiece Z 20 RAT LIGHT XOR zobristPiece Z 27 RAT LIGHT
           XOR zobristPiece Z 42 RAT DARK XOR zobristPiece Z 35 RAT DARK"
    unfolding cycSquares_upd
    by (subst hfold_upd4) (simp_all add: cycSquares_at pkey_vals)
  then show ?thesis
    unfolding cycHash_def hash_computeHash by (simp add: xor.assoc DARK_def)
qed

lemma cycHash_3:
  "cycHash Z 3 = cycHash Z 1 XOR (zobristPiece Z 20 RAT LIGHT XOR zobristPiece Z 27 RAT LIGHT)
                 XOR (zobristPiece Z 42 RAT DARK XOR zobristPiece Z 35 RAT DARK)"
proof -
  have "fold (computeHash_step Z (cycSquares 3)) [0..<63] 0
        = fold (computeHash_step Z (cycSquares (Suc 0))) [0..<63] 0
           XOR zobristPiece Z 27 RAT LIGHT XOR zobristPiece Z 20 RAT LIGHT
           XOR zobristPiece Z 42 RAT DARK XOR zobristPiece Z 35 RAT DARK"
    unfolding cycSquares_upd One_nat_def
    by (subst hfold_upd4) (simp_all add: cycSquares_at pkey_vals)
  then show ?thesis
    unfolding cycHash_def hash_computeHash
    by (simp add: xor.assoc xor.left_commute xor.commute DARK_def)
qed

lemma keysDistinct_cycHash:
  assumes "keysDistinct Z"
  shows "cycHash Z 0 \<noteq> cycHash Z 2" "cycHash Z 1 \<noteq> cycHash Z 3"
proof -
  let ?A = "zobristPiece Z 20 RAT LIGHT XOR zobristPiece Z 27 RAT LIGHT"
  let ?B = "zobristPiece Z 42 RAT DARK XOR zobristPiece Z 35 RAT DARK"
  from assms have ne: "?A \<noteq> ?B" by (simp add: keysDistinct_def)
  show "cycHash Z 0 \<noteq> cycHash Z 2"
  proof
    assume "cycHash Z 0 = cycHash Z 2"
    then have "cycHash Z 0 = cycHash Z 0 XOR ?A XOR ?B" using cycHash_2 [of Z] by simp
    from xor_cancel_eq [OF this] ne show False by simp
  qed
  show "cycHash Z 1 \<noteq> cycHash Z 3"
  proof
    assume "cycHash Z 1 = cycHash Z 3"
    then have "cycHash Z 1 = cycHash Z 1 XOR ?A XOR ?B" using cycHash_3 [of Z] by simp
    from xor_cancel_eq [OF this] ne show False by simp
  qed
qed

lemma keysDistinct_testKeys: "keysDistinct testKeys"
  by (simp add: keysDistinct_def testKeys_def RAT_def LIGHT_def DARK_def)

lemma ratCatPos_fields:
  "setFEN testKeys zeroBoard ''7/7/7/7/7/1cR4/7/7/7 w'' = Inr (True, ratCatPos)"
  "squares ratCatPos ! 23 = RAT" "squares ratCatPos ! 22 = - CAT"
  "sideToMove ratCatPos = LIGHT"
  by (simp_all add: ratCatPos_def fen_defs zeroBoard_def)

lemma ratCatPos_member: "encodeMove 23 22 \<in> set (generateMoves ratCatPos)"
  by (simp add: ratCatPos_def fen_defs zeroBoard_def movegen_defs consts_defs)































section \<open>Results\<close>

text \<open>
  C3 (as amended). For every attacker rank, defender rank, attacker colour and pair of
  squares of the board, \<open>canCapture\<close> returns true exactly when the capture rule of the
  specification permits or both squares are water: never across the water/land
  boundary; always between two water squares, whatever the two ranks; on land always
  when the defender stands on a trap of the attacker's own side, a Rat takes an
  Elephant, an Elephant does not take a Rat, and otherwise the attacker's rank must be
  at least the defender's.  Where the pieces on two water squares are Rats, as the rule
  of the specification requires, \<open>canCapture\<close> and the rule agree.
\<close>

theorem canCapture_matches_spec:
  assumes "0 \<le> fromSq" and "fromSq < NUM_SQ" and "0 \<le> toSq" and "toSq < NUM_SQ"
      and "color = LIGHT \<or> color = DARK"
  shows "canCapture attacker defender color fromSq toSq
           = (spec_capture attacker defender color fromSq toSq
              \<or> (spec_is_water fromSq \<and> spec_is_water toSq))
       \<and> ((spec_is_water fromSq \<and> spec_is_water toSq \<longrightarrow> attacker = RAT \<and> defender = RAT)
            \<longrightarrow> canCapture attacker defender color fromSq toSq
                 = spec_capture attacker defender color fromSq toSq)"
  using canCapture_spec [OF assms, of attacker defender]
    canCapture_spec_rats [OF assms, of attacker defender]
  by blast

theorem canCapture_matches_spec_witness:
  "(0::int) \<le> 20 \<and> 20 < NUM_SQ \<and> (0::int) \<le> 27 \<and> 27 < NUM_SQ
   \<and> \<not> spec_is_water 20 \<and> \<not> spec_is_water 27
   \<and> canCapture RAT ELEPHANT LIGHT 20 27 = spec_capture RAT ELEPHANT LIGHT 20 27
   \<and> canCapture RAT ELEPHANT LIGHT 20 27
   \<and> \<not> canCapture ELEPHANT RAT LIGHT 20 27
   \<and> spec_is_water 22 \<and> spec_is_water 23
   \<and> canCapture RAT RAT DARK 22 23 = spec_capture RAT RAT DARK 22 23
   \<and> canCapture RAT RAT DARK 22 23"
  using canCapture_matches_spec [of 20 27 LIGHT RAT ELEPHANT]
    canCapture_matches_spec [of 22 23 DARK RAT RAT]
  by (simp add: canCapture_def isWater_eq terrain_eq consts_defs spec_is_water_def
      spec_row_def spec_col_def)

text \<open>
  The claim as stated fails between two water squares when a piece there is no Rat: in
  the position of the text \<^verbatim>\<open>7/7/7/7/7/1cR4/7/7/7 w\<close>, which \<open>setFEN\<close> accepts, the
  Light Rat on c4 takes the Dark Cat on b4, a capture that the rule of the specification
  does not permit.
\<close>

theorem canCapture_water_counterexample:
  "setFEN testKeys zeroBoard ''7/7/7/7/7/1cR4/7/7/7 w'' = Inr (True, ratCatPos)
   \<and> sideToMove ratCatPos = LIGHT
   \<and> squares ratCatPos ! 23 = RAT \<and> squares ratCatPos ! 22 = - CAT
   \<and> spec_is_water 23 \<and> spec_is_water 22
   \<and> \<not> spec_capture RAT CAT LIGHT 23 22
   \<and> canCapture RAT CAT LIGHT 23 22
   \<and> encodeMove 23 22 \<in> set (generateMoves ratCatPos)"
  using ratCatPos_fields ratCatPos_member
  by (simp add: canCapture_def isWater_eq spec_capture_def spec_is_water_def
      spec_row_def spec_col_def consts_defs)

text \<open>
  C7. From the starting position set up by \<open>init\<close>, \<open>generateMoves\<close> produces exactly
  24 moves, the first moves of Light; they are listed by origin and destination square.
\<close>

theorem generateMoves_init_24:
  "length (generateMoves (init Z b)) = 24
   \<and> map (\<lambda>m. (moveFrom m, moveTo m)) (generateMoves (init Z b)) =
     [(20, 27), (20, 13), (20, 19), (8, 15), (8, 1), (8, 9), (8, 7), (12, 19),
      (12, 5), (12, 13), (12, 11), (16, 9), (16, 17), (16, 15), (18, 11),
      (18, 19), (18, 17), (0, 7), (0, 1), (6, 13), (6, 5), (14, 21), (14, 7),
      (14, 15)]"
  by (simp add: movegen_defs squares_init pieceSq_init sideToMove_init consts_defs
      jumpsOf_0 jumpsOf_6)

text \<open>
  C8. For every score \<open>s\<close> with \<open>|s| \<le> SCORE_MATE\<close> and every ply in \<open>[0, MAX_PLY)\<close>,
  reading back a stored score at the same ply returns the score that was stored:
  \<open>scoreFromTT (scoreToTT s ply) ply = s\<close>.
\<close>

theorem scoreTT_roundtrip:
  assumes "\<bar>s\<bar> \<le> SCORE_MATE" and "0 \<le> p" and "p < MAX_PLY"
  shows "scoreFromTT (scoreToTT s p) p = s"
  using assms by (simp add: scoreToTT_def scoreFromTT_def SCORE_MATE_def MAX_PLY_def)

theorem scoreTT_roundtrip_witness:
  "\<bar>28990\<bar> \<le> SCORE_MATE \<and> (0::int) \<le> 10 \<and> 10 < MAX_PLY
   \<and> scoreToTT 28990 10 = 29000 \<and> scoreFromTT (scoreToTT 28990 10) 10 = 28990"
  using scoreTT_roundtrip [of 28990 10]
  by (simp add: scoreToTT_def SCORE_MATE_def MAX_PLY_def)

text \<open>
  C5 (as amended). For a side to move that is Light or Dark, \<open>checkGameOver\<close> reports
  LOST (\<open>-1\<close>) exactly when an enemy piece stands on the side to move's own den or the
  side to move has no piece left; it reports WON (\<open>1\<close>) exactly when the opponent has no
  piece left and the side to move has not lost; and it reports the game as ongoing
  (\<open>0\<close>) in every other case.
\<close>

theorem checkGameOver_cases:
  assumes "sideToMove b = LIGHT \<or> sideToMove b = DARK"
  shows "(checkGameOver b = - 1) = spec_lost b
       \<and> (checkGameOver b = 1) = (spec_won b \<and> \<not> spec_lost b)
       \<and> (checkGameOver b = 0) = (\<not> spec_won b \<and> \<not> spec_lost b)"
  using assms
  by (auto simp add: checkGameOver_def spec_lost_def spec_won_def spec_den_def Let_def
      consts_defs pieceColor_def)

theorem checkGameOver_cases_witness:
  "sideToMove startPos = LIGHT \<and> checkGameOver startPos = 0
   \<and> \<not> spec_won startPos \<and> \<not> spec_lost startPos"
  using checkGameOver_cases [of startPos]
  by (simp add: startPos_def sideToMove_init LIGHT_def checkGameOver_def squares_init
      DEN_LIGHT_SQ_def makeSq_def BOARD_W_def pieceCount_init zeroBoard_def)

text \<open>
  The claim as stated fails on the empty board, which \<open>setFEN\<close> accepts: the opponent has
  no piece, yet the status is LOST, not WON, because the side to move has none either.
\<close>

theorem checkGameOver_won_counterexample:
  "setFEN testKeys zeroBoard ''7/7/7/7/7/7/7/7/7 w'' = Inr (True, emptyPos)
   \<and> pieceCount emptyPos ! nat (1 - sideToMove emptyPos) = 0
   \<and> checkGameOver emptyPos \<noteq> 1
   \<and> checkGameOver emptyPos = - 1"
  by (simp add: emptyPos_def fen_defs checkGameOver_def zeroBoard_def pieceColor_def)

text \<open>
  C9 (as amended). When \<open>setFEN\<close> rejects a text it does not restore the position: the
  side to move, the hash and the stored history and undo entries are those of the
  position before the call, but ply, halfmove clock and history length are 0, and the
  board, the reverse index and the counts are those of the part of the text read before
  the rejected character (a character that is no piece letter).
\<close>

theorem setFEN_reject_state:
  assumes "setFEN Z b t = Inr (False, b')"
  shows "sideToMove b' = sideToMove b \<and> hash b' = hash b
       \<and> posHistory b' = posHistory b \<and> undoStack b' = undoStack b
       \<and> ply b' = 0 \<and> halfmove b' = 0 \<and> histLen b' = 0
       \<and> (\<exists>pre ch rest. t = pre @ ch # rest \<and> charToRank ch = 0
             \<and> setFEN_loop (clearBoard b) 8 0 pre = Inr (True, b', []))"
proof -
  from setFEN_rejects [OF assms] obtain rest where
    loop: "setFEN_loop (clearBoard b) 8 0 t = Inr (False, b', rest)" by blast
  from setFEN_loop_keeps [OF loop]
  have fields: "sideToMove b' = sideToMove b" "hash b' = hash b"
      "posHistory b' = posHistory b" "undoStack b' = undoStack b"
      "ply b' = 0" "halfmove b' = 0" "histLen b' = 0"
    by (simp_all add: clearBoard_fields)
  from setFEN_loop_reject [OF loop] fields show ?thesis by blast
qed

theorem setFEN_reject_state_witness:
  "setFEN testKeys startPos ''7/7/7/7/7/Lx5/7/7/7 w'' = Inr (False, rejectedPos)
   \<and> sideToMove rejectedPos = sideToMove startPos \<and> hash rejectedPos = hash startPos
   \<and> ply rejectedPos = 0 \<and> halfmove rejectedPos = 0 \<and> histLen rejectedPos = 0"
proof -
  have r: "setFEN testKeys startPos ''7/7/7/7/7/Lx5/7/7/7 w'' = Inr (False, rejectedPos)"
    by (simp add: rejectedPos_def fen_defs)
  from setFEN_reject_state [OF r] r show ?thesis by simp
qed

text \<open>
  The claim as stated fails: rejecting a text from the starting position leaves a board
  with a single Lion and an empty history.
\<close>

theorem setFEN_not_atomic_counterexample:
  "setFEN testKeys startPos ''7/7/7/7/7/Lx5/7/7/7 w'' = Inr (False, rejectedPos)
   \<and> squares rejectedPos \<noteq> squares startPos
   \<and> squares rejectedPos ! 21 = LION \<and> squares rejectedPos ! 0 = 0
   \<and> squares startPos ! 0 = TIGER
   \<and> histLen rejectedPos = 0 \<and> histLen startPos = 1"
proof -
  have r: "setFEN testKeys startPos ''7/7/7/7/7/Lx5/7/7/7 w'' = Inr (False, rejectedPos)"
    by (simp add: rejectedPos_def fen_defs)
  have a: "squares rejectedPos ! 21 = LION" "squares rejectedPos ! 0 = 0" "histLen rejectedPos = 0"
    by (simp_all add: rejectedPos_def fen_defs)
  have b: "squares startPos ! 0 = TIGER" "histLen startPos = 1"
    by (simp_all add: startPos_def squares_init TIGER_def init_fields)
  from a b have "squares rejectedPos \<noteq> squares startPos"
    by (metis TIGER_def zero_neq_numeral)
  with r a b show ?thesis by simp
qed

text \<open>
  C10. \<open>setFEN\<close> checks nothing but the piece letters: the text
  \<^verbatim>\<open>7/7/7/7/7/Lc5/7/7/7 w\<close> is accepted from any position and leaves a Dark Cat on the
  water square b4, so the resulting position violates the water invariant.
\<close>

theorem setFEN_non_rat_on_water:
  "\<exists>b'. setFEN Z b ''7/7/7/7/7/Lc5/7/7/7 w'' = Inr (True, b')
        \<and> squares b' ! 22 = - CAT \<and> isWater ! 22 \<and> \<not> waterInv b'"
  by (simp add: fen_defs isWater_eq waterInv_def upto_rec1)

theorem setFEN_non_rat_on_water_witness:
  "\<exists>b'. setFEN testKeys zeroBoard ''7/7/7/7/7/Lc5/7/7/7 w'' = Inr (True, b')
        \<and> squares b' ! 22 = - CAT \<and> isWater ! 22 \<and> \<not> waterInv b'"
  by (rule setFEN_non_rat_on_water)

text \<open>
  C1. For every position \<open>P\<close> reachable from the starting position by generated moves
  and null moves, with room left in the history, and every move \<open>m\<close> that
  \<open>generateMoves\<close> produces in \<open>P\<close>: \<open>makeMove\<close> followed by \<open>unmakeMove\<close> succeeds and
  restores the board array, the reverse index \<open>pieceSq\<close>, the piece counts, the hash, the
  halfmove clock and the history length of \<open>P\<close> (also the side to move and the ply);
  the same holds for \<open>makeNullMove\<close> followed by \<open>unmakeNullMove\<close>.
\<close>

theorem make_unmake_roundtrip:
  assumes "reachable Z P" and "histLen P < MAX_GAME_LEN"
  shows "(\<forall>m \<in> set (generateMoves P).
           \<exists>P1 P2. makeMove Z P m = Inr P1 \<and> unmakeMove P1 = Inr P2
             \<and> squares P2 = squares P \<and> pieceSq P2 = pieceSq P \<and> pieceCount P2 = pieceCount P
             \<and> hash P2 = hash P \<and> halfmove P2 = halfmove P \<and> histLen P2 = histLen P
             \<and> sideToMove P2 = sideToMove P \<and> ply P2 = ply P)
       \<and> (\<exists>P1 P2. makeNullMove Z P = Inr P1 \<and> unmakeNullMove P1 = Inr P2
             \<and> squares P2 = squares P \<and> pieceSq P2 = pieceSq P \<and> pieceCount P2 = pieceCount P
             \<and> hash P2 = hash P \<and> halfmove P2 = halfmove P \<and> histLen P2 = histLen P
             \<and> sideToMove P2 = sideToMove P \<and> ply P2 = ply P)"
proof (intro conjI ballI)
  from assms(1) have w: "wf Z P" by (rule reachable_wf)
  {
    fix m assume m: "m \<in> set (generateMoves P)"
    from w have mv: "movable P m"
      using legal_movable [OF _ _ _ m] by (simp add: wf_def)
    from make_unmake_wf [OF w mv assms(2)]
    show "\<exists>P1 P2. makeMove Z P m = Inr P1 \<and> unmakeMove P1 = Inr P2
             \<and> squares P2 = squares P \<and> pieceSq P2 = pieceSq P \<and> pieceCount P2 = pieceCount P
             \<and> hash P2 = hash P \<and> halfmove P2 = halfmove P \<and> histLen P2 = histLen P
             \<and> sideToMove P2 = sideToMove P \<and> ply P2 = ply P"
      by simp
  }
  from null_unnull_wf [OF w assms(2)]
  show "\<exists>P1 P2. makeNullMove Z P = Inr P1 \<and> unmakeNullMove P1 = Inr P2
             \<and> squares P2 = squares P \<and> pieceSq P2 = pieceSq P \<and> pieceCount P2 = pieceCount P
             \<and> hash P2 = hash P \<and> halfmove P2 = halfmove P \<and> histLen P2 = histLen P
             \<and> sideToMove P2 = sideToMove P \<and> ply P2 = ply P"
    by auto
qed

text \<open>
  C2. In every reachable position the hash equals the full recomputation by
  \<open>computeHash\<close> over the board and the side to move, and every operation preserves this:
  after \<open>makeMove\<close> of a generated move the hash field equals \<open>computeHash\<close> of the
  resulting position, and after \<open>unmakeMove\<close> it is the hash of \<open>P\<close> again; likewise
  for \<open>makeNullMove\<close> and \<open>unmakeNullMove\<close>.
\<close>

theorem hash_invariant:
  assumes "reachable Z P" and "histLen P < MAX_GAME_LEN"
  shows "hash P = hash (computeHash Z P)
       \<and> (\<forall>m \<in> set (generateMoves P).
           \<exists>P1 P2. makeMove Z P m = Inr P1 \<and> hash P1 = hash (computeHash Z P1)
             \<and> unmakeMove P1 = Inr P2 \<and> hash P2 = hash P)
       \<and> (\<exists>P1 P2. makeNullMove Z P = Inr P1 \<and> hash P1 = hash (computeHash Z P1)
             \<and> unmakeNullMove P1 = Inr P2 \<and> hash P2 = hash P)"
proof (intro conjI ballI)
  from assms(1) have w: "wf Z P" by (rule reachable_wf)
  then show "hash P = hash (computeHash Z P)" by (simp add: wf_def)
  {
    fix m assume m: "m \<in> set (generateMoves P)"
    from w have mv: "movable P m"
      using legal_movable [OF _ _ _ m] by (simp add: wf_def)
    from wf_movedBoard [OF w mv]
    have "hash (movedBoard Z P m) = hash (computeHash Z (movedBoard Z P m))"
      by (simp add: wf_def)
    with make_unmake_wf [OF w mv assms(2)]
    show "\<exists>P1 P2. makeMove Z P m = Inr P1 \<and> hash P1 = hash (computeHash Z P1)
             \<and> unmakeMove P1 = Inr P2 \<and> hash P2 = hash P"
      by simp
  }
  from null_unnull_wf [OF w assms(2)]
  show "\<exists>P1 P2. makeNullMove Z P = Inr P1 \<and> hash P1 = hash (computeHash Z P1)
             \<and> unmakeNullMove P1 = Inr P2 \<and> hash P2 = hash P"
    by auto
qed

theorem make_unmake_roundtrip_witness:
  "reachable testKeys startPos \<and> histLen startPos < MAX_GAME_LEN
   \<and> encodeMove 14 21 \<in> set (generateMoves startPos)
   \<and> (\<exists>P1 P2. makeMove testKeys startPos (encodeMove 14 21) = Inr P1 \<and> unmakeMove P1 = Inr P2
         \<and> squares P2 = squares startPos \<and> pieceSq P2 = pieceSq startPos
         \<and> pieceCount P2 = pieceCount startPos \<and> hash P2 = hash startPos
         \<and> halfmove P2 = halfmove startPos \<and> histLen P2 = histLen startPos)"
  using make_unmake_roundtrip [OF startPos_facts(1,2)] startPos_facts
  by fastforce

theorem hash_invariant_witness:
  "reachable testKeys startPos \<and> histLen startPos < MAX_GAME_LEN
   \<and> encodeMove 14 21 \<in> set (generateMoves startPos)
   \<and> hash startPos = hash (computeHash testKeys startPos)
   \<and> (\<exists>P1 P2. makeMove testKeys startPos (encodeMove 14 21) = Inr P1
         \<and> hash P1 = hash (computeHash testKeys P1)
         \<and> unmakeMove P1 = Inr P2 \<and> hash P2 = hash startPos)"
  using hash_invariant [OF startPos_facts(1,2)] startPos_facts
  by fastforce

text \<open>
  C6. \<open>isRepetition\<close> returns true exactly when the current hash stands at two or more
  earlier entries of the history that have the same side to move (the entries at even
  distance below the current one).  In particular, when the four reversible moves
  g3g4, a7a6, g4g3, a6a7 are played again and again from the starting position (with
  keys under which the two shuttling Rats do not cancel), every move of the run is
  generated, the start position recurs after every fourth ply, and \<open>isRepetition\<close> is
  false after fewer than 8 plies and true from the 8th ply on: it first becomes true at
  the third occurrence of the start position.
\<close>

theorem isRepetition_threefold:
  "isRepetition b = (2 \<le> card (priorSame b))
   \<and> (keysDistinct Z \<and> length (pieceCount b0) = 2 \<and> int k < MAX_GAME_LEN \<longrightarrow>
        (\<exists>B. playMoves Z (init Z b0) (cycleRun k) = Inr B \<and> reachable Z B
             \<and> cycleMoves ! (k mod 4) \<in> set (generateMoves B)
             \<and> squares B = cycSquares (k mod 4) \<and> sideToMove B = int (k mod 2)
             \<and> (k mod 4 = 0 \<longrightarrow> squares B = squares (init Z b0)
                                  \<and> sideToMove B = sideToMove (init Z b0))
             \<and> isRepetition B = (8 \<le> k)))"
proof (intro conjI impI)
  show "isRepetition b = (2 \<le> card (priorSame b))" by (rule isRepetition_card)
next
  assume a: "keysDistinct Z \<and> length (pieceCount b0) = 2 \<and> int k < MAX_GAME_LEN"
  from a have kd: "keysDistinct Z" by (rule conjunct1)
  from a have len: "length (pieceCount b0) = 2" by (elim conjE)
  from a have cap: "int k < MAX_GAME_LEN" by (elim conjE)
  from cycle_run [OF len cap, of Z] obtain B where
    run: "playMoves Z (init Z b0) (cycleRun k) = Inr B" and st: "cycState Z k B" by (elim exE conjE)
  from st have re: "reachable Z B" and sq: "squares B = cycSquares (k mod 4)"
    and ps: "pieceSq B = cycPieceSq (k mod 4)" and sd: "sideToMove B = int (k mod 2)"
    unfolding cycState_def by blast+
  from cyc_step_fields [OF sq ps sd, of Z]
  have legal: "cycleMoves ! (k mod 4) \<in> set (generateMoves B)" by (rule conjunct1)
  have s0: "cycSquares 0 = squares (init Z b0)" by (simp add: squares_init cycSquares_def)
  have start: "k mod 4 = 0 \<longrightarrow> squares B = squares (init Z b0)
                 \<and> sideToMove B = sideToMove (init Z b0)"
  proof
    assume z: "k mod 4 = 0"
    have "k mod 2 = (k mod 4) mod 2" by (simp add: mod_mod_cancel)
    with z have z2: "k mod 2 = 0" by simp
    from sq z s0 have "squares B = squares (init Z b0)" by simp
    moreover from sd z2 have "sideToMove B = sideToMove (init Z b0)"
      by (simp add: sideToMove_init)
    ultimately show "squares B = squares (init Z b0) \<and> sideToMove B = sideToMove (init Z b0)" ..
  qed
  from cyc_isRepetition [OF st keysDistinct_cycHash [OF kd]]
  have rep: "isRepetition B = (8 \<le> k)" .
  show "\<exists>B. playMoves Z (init Z b0) (cycleRun k) = Inr B \<and> reachable Z B
             \<and> cycleMoves ! (k mod 4) \<in> set (generateMoves B)
             \<and> squares B = cycSquares (k mod 4) \<and> sideToMove B = int (k mod 2)
             \<and> (k mod 4 = 0 \<longrightarrow> squares B = squares (init Z b0)
                                  \<and> sideToMove B = sideToMove (init Z b0))
             \<and> isRepetition B = (8 \<le> k)"
    by (intro exI [of _ B] conjI run re legal sq sd start rep)
qed

theorem isRepetition_threefold_witness:
  "keysDistinct testKeys \<and> length (pieceCount zeroBoard) = 2 \<and> int 8 < MAX_GAME_LEN
   \<and> (\<exists>B. playMoves testKeys startPos (cycleRun 8) = Inr B \<and> isRepetition B
            \<and> squares B = squares startPos)
   \<and> (\<exists>B. playMoves testKeys startPos (cycleRun 4) = Inr B \<and> \<not> isRepetition B
            \<and> squares B = squares startPos)"
proof -
  have h: "keysDistinct testKeys" "length (pieceCount zeroBoard) = 2"
    "int 8 < MAX_GAME_LEN" "int 4 < MAX_GAME_LEN"
    by (simp_all add: keysDistinct_testKeys zeroBoard_def MAX_GAME_LEN_def)
  from isRepetition_threefold [of zeroBoard testKeys zeroBoard 8] h
  have a: "\<exists>B. playMoves testKeys startPos (cycleRun 8) = Inr B \<and> isRepetition B
            \<and> squares B = squares startPos"
    unfolding startPos_def by auto
  from isRepetition_threefold [of zeroBoard testKeys zeroBoard 4] h
  have b: "\<exists>B. playMoves testKeys startPos (cycleRun 4) = Inr B \<and> \<not> isRepetition B
            \<and> squares B = squares startPos"
    unfolding startPos_def by auto
  from h a b show ?thesis by simp
qed




end
